theory Spec2Isabelle
  imports Main
begin

section \<open>Strings of the JavaScript source\<close>

text \<open>
  Two kinds of strings occur in the two programs of \<^verbatim>\<open>video_player_ai\<close>.

  Paths, commands and labels are only built, by template literals, and compared: they are
  modelled as a \<^typ>\<open>string\<close>.

  The content of a subtitle file is read as text, taken apart and written back. A file
  holds bytes; the text the source works on is what decoding them as UTF-8 gives. A byte
  is a \<^typ>\<open>char\<close>, and a text is the list of its Unicode code points. (A JavaScript
  string is a list of UTF-16 code units, in which a code point above \<open>0xFFFF\<close> takes two; the
  operations of the clean-up, \<^verbatim>\<open>split('\n')\<close>, \<^verbatim>\<open>includes('-->')\<close>, \<^verbatim>\<open>trim\<close>, the
  test against \<^verbatim>\<open>/^\d+$/\<close>, \<^verbatim>\<open>replace(/"/g, '')\<close> and \<^verbatim>\<open>join('\n')\<close>, only look
  for code points below \<open>0x10000\<close> that are not surrogates, so they do the same on both.)
\<close>

type_synonym bytes = "char list"

type_synonym js_text = "nat list"

text \<open>The text of a literal of the source, all of whose characters are ASCII.\<close>

definition ascii :: "string \<Rightarrow> js_text" where
  "ascii s = map of_char s"

text \<open>The decimal digit for a number below ten.\<close>

definition digit_char :: "nat \<Rightarrow> char" where
  "digit_char d = ''0123456789'' ! (d mod 10)"

text \<open>
  A non-negative integer inside a template literal (\<^verbatim>\<open>${stream.index}\<close>,
  \<^verbatim>\<open>${Date.now()}\<close>, \<^verbatim>\<open>${i + 1}\<close>) is printed in decimal, without leading zeros
  (JavaScript does so for the integers below \<open>10\<^sup>2\<^sup>1\<close>, which stream indexes,
  positions and clock readings are).
\<close>

function show_nat :: "nat \<Rightarrow> string" where
  "show_nat n = (if n < 10 then [digit_char n] else show_nat (n div 10) @ [digit_char (n mod 10)])"
  by pat_completeness auto
termination
  by (relation "measure (\<lambda>n. n)") auto

declare show_nat.simps [simp del]

text \<open>\<^verbatim>\<open>s.split(sep)\<close> for a separator of one character; the empty string gives one empty piece.\<close>

fun js_split :: "'a \<Rightarrow> 'a list \<Rightarrow> 'a list list" where
  "js_split sep [] = [[]]"
| "js_split sep (c # cs) =
     (if c = sep then [] # js_split sep cs
      else (case js_split sep cs of [] \<Rightarrow> [[c]] | l # ls \<Rightarrow> (c # l) # ls))"

text \<open>\<^verbatim>\<open>pieces.join(sep)\<close>.\<close>

fun js_join :: "'a \<Rightarrow> 'a list list \<Rightarrow> 'a list" where
  "js_join sep [] = []"
| "js_join sep [l] = l"
| "js_join sep (l # l' # ls) = l @ sep # js_join sep (l' # ls)"

fun starts_with :: "'a list \<Rightarrow> 'a list \<Rightarrow> bool" where
  "starts_with s [] = True"
| "starts_with [] (p # ps) = False"
| "starts_with (c # cs) (p # ps) = (c = p \<and> starts_with cs ps)"

text \<open>\<^verbatim>\<open>s.includes(sub)\<close>: \<open>sub\<close> occurs somewhere in \<open>s\<close>.\<close>

fun js_includes :: "'a list \<Rightarrow> 'a list \<Rightarrow> bool" where
  "js_includes [] sub = (sub = [])"
| "js_includes (c # cs) sub = (starts_with (c # cs) sub \<or> js_includes cs sub)"

text \<open>
  The code points that \<^verbatim>\<open>trim\<close> strips: the white space of JavaScript (tab, vertical
  tab, form feed, space, no-break space, the byte order mark and the other space
  separators of Unicode) and its line terminators (line feed, carriage return, line
  separator, paragraph separator).
\<close>

definition is_space :: "nat \<Rightarrow> bool" where
  "is_space c =
     (c \<in> set [0x09, 0x0A, 0x0B, 0x0C, 0x0D, 0x20, 0xA0, 0x1680,
                0x2000, 0x2001, 0x2002, 0x2003, 0x2004, 0x2005, 0x2006, 0x2007, 0x2008, 0x2009, 0x200A,
                0x2028, 0x2029, 0x202F, 0x205F, 0x3000, 0xFEFF])"

definition trim :: "js_text \<Rightarrow> js_text" where
  "trim s = rev (dropWhile is_space (rev (dropWhile is_space s)))"

text \<open>\<^verbatim>\<open>\d\<close>: the digits \<^verbatim>\<open>0\<close> to \<^verbatim>\<open>9\<close>.\<close>

definition is_digit :: "nat \<Rightarrow> bool" where
  "is_digit c = (0x30 \<le> c \<and> c \<le> 0x39)"

text \<open>\<^verbatim>\<open>/^\d+$/.test(s)\<close>: one or more characters, all of them decimal digits.\<close>

definition all_digits :: "js_text \<Rightarrow> bool" where
  "all_digits s = (s \<noteq> [] \<and> list_all is_digit s)"

text \<open>\<^verbatim>\<open>line.replace(/"/g, '')\<close>: every double quote removed.\<close>

definition remove_quotes :: "js_text \<Rightarrow> js_text" where
  "remove_quotes s = filter (\<lambda>c. c \<noteq> 0x22) s"

section \<open>The subtitle clean-up of the \<^verbatim>\<open>extract-stream\<close> handler\<close>

text \<open>
  The callback of \<^verbatim>\<open>map\<close> in the handler: a line that contains \<^verbatim>\<open>-->\<close>, or that
  trimmed is a run of digits, the literal \<^verbatim>\<open>WEBVTT\<close> or empty, is returned as it is; any
  other line loses its double quotes.
\<close>

definition cleanLine :: "js_text \<Rightarrow> js_text" where
  "cleanLine line =
     (if js_includes line (ascii ''-->'') \<or> all_digits (trim line) \<or> trim line = ascii ''WEBVTT''
         \<or> trim line = []
      then line
      else remove_quotes line)"

text \<open>\<^verbatim>\<open>vttContent.split('\n').map(...).join('\n')\<close>.\<close>

definition cleanedContent :: "js_text \<Rightarrow> js_text" where
  "cleanedContent vttContent = js_join 0x0A (map cleanLine (js_split 0x0A vttContent))"

section \<open>Reading and writing a file as UTF-8\<close>

text \<open>
  The code points that a text read from a file can hold: the scalar values of Unicode, that
  is all code points up to \<open>0x10FFFF\<close> but the surrogates.
\<close>

definition scalar_value :: "nat \<Rightarrow> bool" where
  "scalar_value cp = (cp < 0xD800 \<or> (0xE000 \<le> cp \<and> cp < 0x110000))"

definition continuation :: "nat \<Rightarrow> nat \<Rightarrow> char \<Rightarrow> bool" where
  "continuation lower upper c = (lower \<le> (of_char c :: nat) \<and> (of_char c :: nat) \<le> upper)"

text \<open>
  Decoding, as \<^verbatim>\<open>fs.readFileSync(path, 'utf8')\<close> does it: a well-formed sequence of one
  to four bytes gives its code point; a byte that cannot start a sequence, and a sequence
  that is cut short by a byte that cannot continue it or by the end of the file, give the
  replacement character \<open>U+FFFD\<close>, and decoding goes on with the byte that did not fit.
  The second byte of a sequence is bounded more tightly after the lead bytes \<open>0xE0\<close>,
  \<open>0xED\<close>, \<open>0xF0\<close> and \<open>0xF4\<close>, which excludes overlong forms, surrogates and code points
  above \<open>0x10FFFF\<close>.
\<close>

fun utf8_decode :: "bytes \<Rightarrow> js_text" where
  "utf8_decode [] = []"
| "utf8_decode (b # bs) =
     (let n = (of_char b :: nat) in
      if n < 0x80 then n # utf8_decode bs
      else if 0xC2 \<le> n \<and> n \<le> 0xDF then
        (case bs of
           [] \<Rightarrow> [0xFFFD]
         | c # cs \<Rightarrow>
             if continuation 0x80 0xBF c
             then ((n - 0xC0) * 64 + (of_char c - 0x80)) # utf8_decode cs
             else 0xFFFD # utf8_decode (c # cs))
      else if 0xE0 \<le> n \<and> n \<le> 0xEF then
        (case bs of
           [] \<Rightarrow> [0xFFFD]
         | c # cs \<Rightarrow>
             if continuation (if n = 0xE0 then 0xA0 else 0x80) (if n = 0xED then 0x9F else 0xBF) c
             then (case cs of
                     [] \<Rightarrow> [0xFFFD]
                   | d # ds \<Rightarrow>
                       if continuation 0x80 0xBF d
                       then ((n - 0xE0) * 4096 + (of_char c - 0x80) * 64 + (of_char d - 0x80)) # utf8_decode ds
                       else 0xFFFD # utf8_decode (d # ds))
             else 0xFFFD # utf8_decode (c # cs))
      else if 0xF0 \<le> n \<and> n \<le> 0xF4 then
        (case bs of
           [] \<Rightarrow> [0xFFFD]
         | c # cs \<Rightarrow>
             if continuation (if n = 0xF0 then 0x90 else 0x80) (if n = 0xF4 then 0x8F else 0xBF) c
             then (case cs of
                     [] \<Rightarrow> [0xFFFD]
                   | d # ds \<Rightarrow>
                       if continuation 0x80 0xBF d
                       then (case ds of
                               [] \<Rightarrow> [0xFFFD]
                             | e # es \<Rightarrow>
                                 if continuation 0x80 0xBF e
                                 then ((n - 0xF0) * 262144 + (of_char c - 0x80) * 4096
                                         + (of_char d - 0x80) * 64 + (of_char e - 0x80)) # utf8_decode es
                                 else 0xFFFD # utf8_decode (e # es))
                       else 0xFFFD # utf8_decode (d # ds))
             else 0xFFFD # utf8_decode (c # cs))
      else 0xFFFD # utf8_decode bs)"

text \<open>
  Encoding, as \<^verbatim>\<open>fs.writeFileSync(path, data, 'utf8')\<close> does it: one to four bytes for
  a scalar value. (A code point that is not a scalar value, a lone surrogate of a
  JavaScript string, would be written as \<open>U+FFFD\<close>; decoding never gives one.)
\<close>

definition utf8_encode_cp :: "nat \<Rightarrow> bytes" where
  "utf8_encode_cp cp =
     (if cp < 0x80 then [char_of cp]
      else if cp < 0x800 then [char_of (0xC0 + cp div 64), char_of (0x80 + cp mod 64)]
      else if scalar_value cp \<and> cp < 0x10000 then
        [char_of (0xE0 + cp div 4096), char_of (0x80 + cp div 64 mod 64), char_of (0x80 + cp mod 64)]
      else if scalar_value cp then
        [char_of (0xF0 + cp div 262144), char_of (0x80 + cp div 4096 mod 64),
         char_of (0x80 + cp div 64 mod 64), char_of (0x80 + cp mod 64)]
      else [CHR 0xEF, CHR 0xBF, CHR 0xBD])"

definition utf8_encode :: "js_text \<Rightarrow> bytes" where
  "utf8_encode t = concat (map utf8_encode_cp t)"

text \<open>
  Bytes are valid UTF-8 when they are the encoding of a text: decoding replaces nothing, so
  that encoding what was decoded gives the bytes back.
\<close>

definition valid_utf8 :: "bytes \<Rightarrow> bool" where
  "valid_utf8 bs = (utf8_encode (utf8_decode bs) = bs)"

section \<open>Files and subprocesses\<close>

text \<open>
  The file system is a map from paths to files; a path that is not mapped does not exist.
  The content of a file is its bytes. Reading a missing or unreadable file and writing an
  unwritable one raise, as \<^verbatim>\<open>fs.readFileSync\<close> and \<^verbatim>\<open>fs.writeFileSync\<close> do; with the
  encoding \<^verbatim>\<open>utf8\<close>, as the source calls them, reading decodes the bytes and writing
  encodes the text.
\<close>

record file_entry =
  content :: bytes
  readable :: bool
  writable :: bool

type_synonym fs = "string \<Rightarrow> file_entry option"

datatype io_error = ENOENT | EACCES

definition readFileSync :: "fs \<Rightarrow> string \<Rightarrow> io_error + js_text" where
  "readFileSync fs p =
     (case fs p of
        None \<Rightarrow> Inl ENOENT
      | Some f \<Rightarrow> if readable f then Inr (utf8_decode (content f)) else Inl EACCES)"

definition writeFileSync :: "fs \<Rightarrow> string \<Rightarrow> js_text \<Rightarrow> io_error + fs" where
  "writeFileSync fs p data =
     (case fs p of
        None \<Rightarrow> Inr (fs(p \<mapsto> \<lparr>content = utf8_encode data, readable = True, writable = True\<rparr>))
      | Some f \<Rightarrow> if writable f then Inr (fs(p \<mapsto> f\<lparr>content := utf8_encode data\<rparr>)) else Inl EACCES)"

text \<open>
  The state the handlers act on: the files, and the commands handed to a subprocess so far,
  in the order they were spawned.
\<close>

record 'c world =
  files :: fs
  spawned :: "'c list"

text \<open>
  What a subprocess does is not decided by the program: it is a parameter \<open>proc\<close>, which for
  a command and the files it finds gives the error it ends with (\<open>None\<close> when it succeeds) and
  the files it leaves. Running a command records it as spawned.
\<close>

type_synonym 'c process = "'c \<Rightarrow> fs \<Rightarrow> string option \<times> fs"

definition exec :: "'c process \<Rightarrow> 'c \<Rightarrow> 'c world \<Rightarrow> string option \<times> 'c world" where
  "exec proc command w =
     (case proc command (files w) of
        (err, fs') \<Rightarrow> (err, \<lparr>files = fs', spawned = spawned w @ [command]\<rparr>))"

text \<open>
  \<^verbatim>\<open>path.join(dir, name)\<close> for a directory path without a trailing separator and a
  name without one, as every call of the source has them.
\<close>

definition path_join :: "string \<Rightarrow> string \<Rightarrow> string" where
  "path_join dir name = dir @ ''/'' @ name"

section \<open>Streams as \<^verbatim>\<open>ffprobe\<close> reports them\<close>

record stream_tags =
  title :: "string option"
  language :: "string option"

record stream =
  index :: nat
  codec_type :: string
  codec_name :: string
  tags :: "stream_tags option"

section \<open>The interactive mode: the \<^verbatim>\<open>extract-stream\<close> handler\<close>

text \<open>What the promise of the handler is rejected with: a string, or an \<^verbatim>\<open>Error\<close> with a message.\<close>

datatype rejection = Rejected_String string | Rejected_Error string

text \<open>
  The \<^verbatim>\<open>try\<close> block of the handler: the file is read, cleaned and written back; an
  exception of the read or of the write is caught and logged, and the file stays as it was.
\<close>

definition clean_subtitle_file :: "string \<Rightarrow> fs \<Rightarrow> fs" where
  "clean_subtitle_file outputPath fs =
     (case readFileSync fs outputPath of
        Inl e \<Rightarrow> fs
      | Inr vttContent \<Rightarrow>
          (case writeFileSync fs outputPath (cleanedContent vttContent) of
             Inl e \<Rightarrow> fs
           | Inr fs' \<Rightarrow> fs'))"

text \<open>The promise around \<^verbatim>\<open>exec(command, callback)\<close>, with the callback's two branches.\<close>

definition run_command ::
  "string process \<Rightarrow> stream \<Rightarrow> string \<Rightarrow> string \<Rightarrow> string world \<Rightarrow> (rejection + string) \<times> string world"
where
  "run_command proc stream command outputPath w =
     (case exec proc command w of
        (Some stderr, w') \<Rightarrow>
          (Inl (Rejected_Error (''FFmpeg failed to extract stream: '' @ stderr)), w')
      | (None, w') \<Rightarrow>
          (Inr outputPath,
           if codec_type stream = ''subtitle''
           then w'\<lparr>files := clean_subtitle_file outputPath (files w')\<rparr>
           else w'))"

text \<open>
  The handler. \<open>tempDir\<close> is \<^verbatim>\<open>os.tmpdir()\<close> and \<open>now\<close> is the reading of
  \<^verbatim>\<open>Date.now()\<close>, in milliseconds. The result is the value the promise settles with
  (\<open>Inr\<close> the output path, \<open>Inl\<close> the rejection).
\<close>

definition extract_stream ::
  "string \<Rightarrow> nat \<Rightarrow> string process \<Rightarrow> string \<Rightarrow> stream \<Rightarrow> string world \<Rightarrow> (rejection + string) \<times> string world"
where
  "extract_stream tempDir now proc filePath stream w =
     (let uniqueId = ''mx-player-'' @ show_nat now in
      if codec_type stream = ''audio'' then
        (let outputPath = path_join tempDir (uniqueId @ ''_audio_'' @ show_nat (index stream) @ ''.aac'');
             command =
               (if codec_name stream = ''aac''
                then ''ffmpeg -y -i \"'' @ filePath @ ''\" -map 0:'' @ show_nat (index stream)
                       @ '' -c:a copy \"'' @ outputPath @ ''\"''
                else ''ffmpeg -y -i \"'' @ filePath @ ''\" -map 0:'' @ show_nat (index stream)
                       @ '' -c:a aac \"'' @ outputPath @ ''\"'')
         in run_command proc stream command outputPath w)
      else if codec_type stream = ''subtitle'' then
        (let outputPath = path_join tempDir (uniqueId @ ''_sub_'' @ show_nat (index stream) @ ''.vtt'');
             command = ''ffmpeg -y -i \"'' @ filePath @ ''\" -map 0:'' @ show_nat (index stream)
                         @ '' -c:s webvtt \"'' @ outputPath @ ''\"''
         in run_command proc stream command outputPath w)
      else (Inl (Rejected_String ''Unsupported stream type for extraction.''), w))"

section \<open>The batch mode: the \<^verbatim>\<open>/upload\<close> handler\<close>

text \<open>
  A command of the \<^verbatim>\<open>fluent-ffmpeg\<close> builder is the record of what the chained calls
  set: \<^verbatim>\<open>ffmpeg(input)\<close> starts it, and \<^verbatim>\<open>output\<close>, \<^verbatim>\<open>noAudio\<close>,
  \<^verbatim>\<open>noVideo\<close>, \<^verbatim>\<open>videoCodec\<close>, \<^verbatim>\<open>audioCodec\<close> and \<^verbatim>\<open>addOutputOption\<close>
  each set or extend one field. The event handlers of the source log or settle the promise
  and are not part of the command.
\<close>

record ffcommand =
  cmd_input :: string
  cmd_output :: "string option"
  no_audio :: bool
  no_video :: bool
  video_codec :: "string option"
  audio_codec :: "string option"
  output_options :: "string list"

definition ffmpeg :: "string \<Rightarrow> ffcommand" where
  "ffmpeg inputFile =
     \<lparr>cmd_input = inputFile, cmd_output = None, no_audio = False, no_video = False,
      video_codec = None, audio_codec = None, output_options = []\<rparr>"

definition ff_output :: "string \<Rightarrow> ffcommand \<Rightarrow> ffcommand" where
  "ff_output p c = c\<lparr>cmd_output := Some p\<rparr>"

definition noAudio :: "ffcommand \<Rightarrow> ffcommand" where
  "noAudio c = c\<lparr>no_audio := True\<rparr>"

definition noVideo :: "ffcommand \<Rightarrow> ffcommand" where
  "noVideo c = c\<lparr>no_video := True\<rparr>"

definition videoCodec :: "string \<Rightarrow> ffcommand \<Rightarrow> ffcommand" where
  "videoCodec codec c = c\<lparr>video_codec := Some codec\<rparr>"

definition audioCodec :: "string \<Rightarrow> ffcommand \<Rightarrow> ffcommand" where
  "audioCodec codec c = c\<lparr>audio_codec := Some codec\<rparr>"

definition addOutputOption :: "string \<Rightarrow> ffcommand \<Rightarrow> ffcommand" where
  "addOutputOption opt c = c\<lparr>output_options := output_options c @ [opt]\<rparr>"

text \<open>The uploaded file, \<^verbatim>\<open>req.file\<close>, as \<^verbatim>\<open>multer\<close> hands it over.\<close>

record upload_file =
  path :: string
  filename :: string
  originalname :: string

text \<open>The metadata \<^verbatim>\<open>ffprobe\<close> calls back with; \<^verbatim>\<open>streams\<close> may be missing.\<close>

record metadata =
  streams :: "stream list option"

text \<open>
  What the handler takes from outside: \<^verbatim>\<open>__dirname\<close>; the base name
  \<^verbatim>\<open>path.basename(filename, path.extname(filename))\<close> of a file name; the outcome of
  \<^verbatim>\<open>ffmpeg.ffprobe\<close> on a file (\<open>Inl\<close> the message of its error); and what running a
  command does.
\<close>

record server =
  dirname :: string
  base_name :: "string \<Rightarrow> string"
  ffprobe :: "string \<Rightarrow> string + metadata"
  run :: "ffcommand process"

record track =
  url :: string
  label :: string

record manifest =
  videoUrl :: string
  audioTracks :: "track list"
  subtitleTracks :: "track list"
  manifest_filename :: string

text \<open>
  The three responses of the handler: status 400 with an error, status 500 with an error
  and the details, and the JSON of a success.
\<close>

datatype response =
    Status400 string
  | Status500 string string
  | Status200 manifest

text \<open>
  \<^verbatim>\<open>cleanupFiles\<close>: the file is unlinked when it exists; an exception is caught and
  logged, so the call never fails.
\<close>

definition cleanupFiles :: "string \<Rightarrow> fs \<Rightarrow> fs" where
  "cleanupFiles filePath fs = fs(filePath := None)"

text \<open>\<^verbatim>\<open>a || b\<close> for a tag that may be missing: a missing and an empty string are both falsy.\<close>

definition js_or :: "string option \<Rightarrow> string \<Rightarrow> string" where
  "js_or a b = (case a of None \<Rightarrow> b | Some s \<Rightarrow> if s = [] then b else s)"

text \<open>\<^verbatim>\<open>stream.tags?.title\<close> and \<^verbatim>\<open>stream.tags?.language\<close>.\<close>

definition tags_title :: "stream \<Rightarrow> string option" where
  "tags_title stream = (case tags stream of None \<Rightarrow> None | Some t \<Rightarrow> title t)"

definition tags_language :: "stream \<Rightarrow> string option" where
  "tags_language stream = (case tags stream of None \<Rightarrow> None | Some t \<Rightarrow> language t)"

text \<open>The command of step 2, for the video, and the commands and results of steps 3 and 4.\<close>

definition video_command :: "string \<Rightarrow> string \<Rightarrow> stream option \<Rightarrow> ffcommand" where
  "video_command inputFile processedDir videoStream =
     (let command =
            videoCodec ''copy'' (noAudio (ff_output (path_join processedDir ''video.mp4'') (ffmpeg inputFile)))
      in if (case videoStream of None \<Rightarrow> False | Some v \<Rightarrow> codec_name v = ''h264'')
         then addOutputOption ''-c:v libx264'' command
         else command)"

definition audio_command :: "string \<Rightarrow> string \<Rightarrow> nat \<Rightarrow> stream \<Rightarrow> ffcommand" where
  "audio_command inputFile processedDir i stream =
     addOutputOption (''-map 0:'' @ show_nat (index stream))
       (audioCodec ''aac''
         (noVideo
           (ff_output (path_join processedDir (''audio_'' @ show_nat i @ ''.aac'')) (ffmpeg inputFile))))"

definition audio_track :: "string \<Rightarrow> nat \<Rightarrow> stream \<Rightarrow> track" where
  "audio_track baseName i stream =
     \<lparr>url = ''/processed/'' @ baseName @ ''/audio_'' @ show_nat i @ ''.aac'',
      label = js_or (tags_title stream) (js_or (tags_language stream) (''Audio '' @ show_nat (i + 1)))\<rparr>"

definition subtitle_command :: "string \<Rightarrow> string \<Rightarrow> nat \<Rightarrow> stream \<Rightarrow> ffcommand" where
  "subtitle_command inputFile processedDir i stream =
     addOutputOption (''-map 0:'' @ show_nat (index stream))
       (ff_output (path_join processedDir (''sub_'' @ show_nat i @ ''.vtt'')) (ffmpeg inputFile))"

definition subtitle_track :: "string \<Rightarrow> nat \<Rightarrow> stream \<Rightarrow> track" where
  "subtitle_track baseName i stream =
     \<lparr>url = ''/processed/'' @ baseName @ ''/sub_'' @ show_nat i @ ''.vtt'',
      label = js_or (tags_title stream) (js_or (tags_language stream) (''Subtitle '' @ show_nat (i + 1)))\<rparr>"

text \<open>
  \<^verbatim>\<open>await Promise.all(streams.map(async (stream, i) => ...))\<close>. Every callback spawns its
  command before the first \<^verbatim>\<open>await\<close>, so all the commands run, whatever their outcomes.
  The promise is rejected as soon as one of them fails. The commands write to different
  paths; the model runs them in the order of the list, and takes as the error of the
  rejection the one of the first failed command in that order (in the source, the first in
  time).
\<close>

fun run_all :: "'c process \<Rightarrow> 'c list \<Rightarrow> 'c world \<Rightarrow> string option list \<times> 'c world" where
  "run_all proc [] w = ([], w)"
| "run_all proc (c # cs) w =
     (case exec proc c w of
        (r, w') \<Rightarrow> (case run_all proc cs w' of (rs, w'') \<Rightarrow> (r # rs, w'')))"

fun first_rejection :: "string option list \<Rightarrow> string option" where
  "first_rejection [] = None"
| "first_rejection (None # rs) = first_rejection rs"
| "first_rejection (Some err # rs) = Some err"

definition promise_all ::
  "'c process \<Rightarrow> 'c list \<Rightarrow> 'r list \<Rightarrow> 'c world \<Rightarrow> (string + 'r list) \<times> 'c world"
where
  "promise_all proc commands results w =
     (case run_all proc commands w of
        (rs, w') \<Rightarrow>
          (case first_rejection rs of
             Some err \<Rightarrow> (Inl err, w')
           | None \<Rightarrow> (Inr results, w')))"

text \<open>
  \<^verbatim>\<open>getFilePaths\<close>: the base name and the directory of the processed files. (The
  directory is also created; directories are not part of the model.)
\<close>

definition getFilePaths :: "server \<Rightarrow> string \<Rightarrow> string \<times> string" where
  "getFilePaths env name =
     (let baseName = base_name env name;
          processedDir = path_join (path_join (dirname env) ''processed'') baseName
      in (baseName, processedDir))"

text \<open>The partition of the probed streams by \<^verbatim>\<open>codec_type\<close>.\<close>

definition videoStream :: "stream list \<Rightarrow> stream option" where
  "videoStream ss = find (\<lambda>s. codec_type s = ''video'') ss"

definition audioStreams :: "stream list \<Rightarrow> stream list" where
  "audioStreams ss = filter (\<lambda>s. codec_type s = ''audio'') ss"

definition subtitleStreams :: "stream list \<Rightarrow> stream list" where
  "subtitleStreams ss = filter (\<lambda>s. codec_type s = ''subtitle'') ss"

text \<open>
  The callbacks of the two \<^verbatim>\<open>map\<close> calls, over the streams with their positions: the
  commands they spawn and the tracks they return.
\<close>

definition audio_commands :: "string \<Rightarrow> string \<Rightarrow> stream list \<Rightarrow> ffcommand list" where
  "audio_commands inputFile processedDir ss =
     map (\<lambda>(i, stream). audio_command inputFile processedDir i stream) (enumerate 0 ss)"

definition audio_track_list :: "string \<Rightarrow> stream list \<Rightarrow> track list" where
  "audio_track_list baseName ss =
     map (\<lambda>(i, stream). audio_track baseName i stream) (enumerate 0 ss)"

definition subtitle_commands :: "string \<Rightarrow> string \<Rightarrow> stream list \<Rightarrow> ffcommand list" where
  "subtitle_commands inputFile processedDir ss =
     map (\<lambda>(i, stream). subtitle_command inputFile processedDir i stream) (enumerate 0 ss)"

definition subtitle_track_list :: "string \<Rightarrow> stream list \<Rightarrow> track list" where
  "subtitle_track_list baseName ss =
     map (\<lambda>(i, stream). subtitle_track baseName i stream) (enumerate 0 ss)"

text \<open>
  The \<^verbatim>\<open>try\<close> block of the handler. \<open>Inl\<close> is the message of the error thrown, \<open>Inr\<close> the
  body of the response of a success.
\<close>

definition process_upload ::
  "server \<Rightarrow> upload_file \<Rightarrow> ffcommand world \<Rightarrow> (string + manifest) \<times> ffcommand world"
where
  "process_upload env file w =
     (let inputFile = path file;
          (baseName, processedDir) = getFilePaths env (filename file)
      in case ffprobe env inputFile of
           Inl err \<Rightarrow> (Inl err, w)
         | Inr metadata \<Rightarrow>
             (case streams metadata of
                None \<Rightarrow> (Inl ''No streams found in the video file'', w)
              | Some ss \<Rightarrow>
                  if ss = [] then (Inl ''No streams found in the video file'', w)
                  else
                    (case exec (run env) (video_command inputFile processedDir (videoStream ss)) w of
                       (Some err, w1) \<Rightarrow> (Inl err, w1)
                     | (None, w1) \<Rightarrow>
                         (case promise_all (run env)
                                 (audio_commands inputFile processedDir (audioStreams ss))
                                 (audio_track_list baseName (audioStreams ss)) w1 of
                            (Inl err, w2) \<Rightarrow> (Inl err, w2)
                          | (Inr audio_tracks, w2) \<Rightarrow>
                              (case promise_all (run env)
                                      (subtitle_commands inputFile processedDir (subtitleStreams ss))
                                      (subtitle_track_list baseName (subtitleStreams ss)) w2 of
                                 (Inl err, w3) \<Rightarrow> (Inl err, w3)
                               | (Inr subtitle_tracks, w3) \<Rightarrow>
                                   (Inr \<lparr>videoUrl = ''/processed/'' @ baseName @ ''/video.mp4'',
                                         audioTracks = audio_tracks,
                                         subtitleTracks = subtitle_tracks,
                                         manifest_filename = originalname file\<rparr>,
                                    w3\<lparr>files := cleanupFiles inputFile (files w3)\<rparr>))))))"

text \<open>
  The handler: without a file it answers 400; an error thrown in the \<^verbatim>\<open>try\<close> block is
  caught, the uploaded file is removed and the answer is 500.
\<close>

definition upload ::
  "server \<Rightarrow> upload_file option \<Rightarrow> ffcommand world \<Rightarrow> response \<times> ffcommand world"
where
  "upload env req_file w =
     (case req_file of
        None \<Rightarrow> (Status400 ''No file uploaded.'', w)
      | Some file \<Rightarrow>
          (case process_upload env file w of
             (Inl details, w') \<Rightarrow>
               (Status500 ''Video processing failed'' details,
                w'\<lparr>files := cleanupFiles (path file) (files w')\<rparr>)
           | (Inr m, w') \<Rightarrow> (Status200 m, w')))"

section \<open>The classification of lines in the words of the specification\<close>



section \<open>Example inputs\<close>

text \<open>
  The inputs at which the results below are instantiated: a container with an H.264 video
  stream, an AAC audio stream titled ``Commentary'', a subtitle stream and an MP3 audio
  stream without tags; two audio streams whose title tag is the empty string; an uploaded
  file; a server whose subprocesses all succeed, each leaving at its output path a text
  with a quoted word; a server whose subprocess for the second audio stream fails when its
  output file is already there; a subtitle file in UTF-8, with a quoted word and an
  accented letter (\<open>U+00E9\<close>, the bytes \<open>0xC3 0xA9\<close>); and a subtitle file in Latin-1, whose
  cue-timing line carries that letter as the single byte \<open>0xE9\<close>.
\<close>

definition video_h264 :: stream where
  "video_h264 = \<lparr>index = 0, codec_type = ''video'', codec_name = ''h264'', tags = None\<rparr>"

definition audio_commentary :: stream where
  "audio_commentary =
     \<lparr>index = 1, codec_type = ''audio'', codec_name = ''aac'',
      tags = Some \<lparr>title = Some ''Commentary'', language = None\<rparr>\<rparr>"

definition subtitle_srt :: stream where
  "subtitle_srt = \<lparr>index = 2, codec_type = ''subtitle'', codec_name = ''subrip'', tags = None\<rparr>"

definition audio_mp3 :: stream where
  "audio_mp3 = \<lparr>index = 3, codec_type = ''audio'', codec_name = ''mp3'', tags = None\<rparr>"

definition audio_empty_title :: stream where
  "audio_empty_title =
     \<lparr>index = 1, codec_type = ''audio'', codec_name = ''aac'',
      tags = Some \<lparr>title = Some [], language = Some ''eng''\<rparr>\<rparr>"

definition audio_empty_tags :: stream where
  "audio_empty_tags =
     \<lparr>index = 2, codec_type = ''audio'', codec_name = ''ac3'',
      tags = Some \<lparr>title = Some [], language = Some []\<rparr>\<rparr>"

definition example_streams :: "stream list" where
  "example_streams = [video_h264, audio_commentary, subtitle_srt, audio_mp3]"

definition example_file :: upload_file where
  "example_file =
     \<lparr>path = ''/srv/uploads/1-clip.mkv'', filename = ''1-clip.mkv'', originalname = ''clip.mkv''\<rparr>"

definition writes_quoted :: "string option \<Rightarrow> fs \<Rightarrow> fs" where
  "writes_quoted out fs =
     (case out of
        None \<Rightarrow> fs
      | Some p \<Rightarrow> fs(p \<mapsto> \<lparr>content = ''He said \"hello\"'', readable = True, writable = True\<rparr>))"

definition example_server :: server where
  "example_server =
     \<lparr>dirname = ''/srv'',
      base_name = (\<lambda>name. ''1-clip''),
      ffprobe = (\<lambda>p. Inr \<lparr>streams = Some example_streams\<rparr>),
      run = (\<lambda>c fs. (None, writes_quoted (cmd_output c) fs))\<rparr>"

definition refuses_overwrite :: "string \<Rightarrow> ffcommand process" where
  "refuses_overwrite p c fs =
     (if cmd_output c = Some p \<and> fs p \<noteq> None
      then (Some ''ffmpeg exited with code 1'', fs)
      else (None, writes_quoted (cmd_output c) fs))"

definition guarded_server :: server where
  "guarded_server = example_server\<lparr>run := refuses_overwrite ''/srv/processed/1-clip/audio_1.aac''\<rparr>"

definition leftover_world :: "ffcommand world" where
  "leftover_world =
     \<lparr>files = [''/srv/processed/1-clip/audio_1.aac'' \<mapsto> \<lparr>content = [], readable = True, writable = True\<rparr>],
      spawned = []\<rparr>"



definition empty_world :: "'c world" where
  "empty_world = \<lparr>files = Map.empty, spawned = []\<rparr>"

section \<open>Properties of the subtitle clean-up\<close>

subsection \<open>Splitting and joining lines\<close>

lemma js_split_not_Nil: "js_split sep s \<noteq> []"
  by (induction s) (auto split: list.splits)

lemma js_split_no_sep: "l \<in> set (js_split sep s) \<Longrightarrow> sep \<notin> set l"
  by (induction s arbitrary: l) (auto split: list.splits if_splits)

lemma js_split_append_no_sep:
  "sep \<notin> set l \<Longrightarrow> js_split sep (l @ sep # s) = l # js_split sep s"
  by (induction l) auto

lemma js_split_id_no_sep: "sep \<notin> set l \<Longrightarrow> js_split sep l = [l]"
  by (induction l) auto

lemma js_split_join:
  "ls \<noteq> [] \<Longrightarrow> \<forall>l \<in> set ls. sep \<notin> set l \<Longrightarrow> js_split sep (js_join sep ls) = ls"
  by (induction sep ls rule: js_join.induct) (auto simp: js_split_append_no_sep js_split_id_no_sep)

lemma set_dropWhile_cover: "x \<in> set xs \<Longrightarrow> x \<in> set (dropWhile P xs) \<or> P x"
  by (induction xs) (auto split: if_splits)

lemma set_trim_cover: "c \<in> set l \<Longrightarrow> c \<in> set (trim l) \<or> is_space c"
proof -
  assume "c \<in> set l"
  then have "c \<in> set (dropWhile is_space l) \<or> is_space c"
    by (rule set_dropWhile_cover)
  then show ?thesis
  proof
    assume "c \<in> set (dropWhile is_space l)"
    then have "c \<in> set (rev (dropWhile is_space l))" by simp
    then have "c \<in> set (dropWhile is_space (rev (dropWhile is_space l))) \<or> is_space c"
      by (rule set_dropWhile_cover)
    then show ?thesis by (auto simp: trim_def)
  next
    assume "is_space c"
    then show ?thesis ..
  qed
qed

lemma quote_not_space: "\<not> is_space (0x22::nat)"
  by (simp add: is_space_def)

lemma quote_not_digit: "\<not> is_digit (0x22::nat)"
  by (simp add: is_digit_def)

lemma no_quote_in_trimmed_structural:
  assumes "all_digits (trim l) \<or> trim l = (ascii ''WEBVTT'') \<or> trim l = []"
  shows "(0x22::nat) \<notin> set l"
proof
  assume "(0x22::nat) \<in> set l"
  then have q: "(0x22::nat) \<in> set (trim l)"
    using set_trim_cover [of "(0x22::nat)" l] quote_not_space by blast
  from assms show False
  proof (elim disjE)
    assume "all_digits (trim l)"
    then have "is_digit (0x22::nat)"
      using q by (auto simp: all_digits_def list_all_iff)
    then show False by (simp add: quote_not_digit)
  next
    assume "trim l = (ascii ''WEBVTT'')"
    with q show False by (simp add: ascii_def)
  next
    assume "trim l = []"
    with q show False by simp
  qed
qed

lemma remove_quotes_id: "(0x22::nat) \<notin> set l \<Longrightarrow> remove_quotes l = l"
  by (induction l) (auto simp: remove_quotes_def)

lemma cleanLine_eq:
  "cleanLine l = (if js_includes l (ascii ''-->'') then l else remove_quotes l)"
proof (cases "all_digits (trim l) \<or> trim l = (ascii ''WEBVTT'') \<or> trim l = []")
  case True
  then have "(0x22::nat) \<notin> set l"
    by (rule no_quote_in_trimmed_structural)
  then have "remove_quotes l = l"
    by (rule remove_quotes_id)
  then show ?thesis
    by (simp add: cleanLine_def)
next
  case False
  then show ?thesis
    by (simp add: cleanLine_def)
qed

lemma set_cleanLine: "set (cleanLine l) \<subseteq> set l"
  by (auto simp: cleanLine_eq remove_quotes_def)

lemma remove_quotes_idem: "remove_quotes (remove_quotes l) = remove_quotes l"
  by (simp add: remove_quotes_def)

lemma cleanLine_idem: "cleanLine (cleanLine l) = cleanLine l"
  by (simp add: cleanLine_eq remove_quotes_idem)

lemma cleanLine_no_newline:
  assumes "l \<in> set (js_split (0x0A::nat) c)"
  shows "(0x0A::nat) \<notin> set (cleanLine l)"
proof -
  from assms have "(0x0A::nat) \<notin> set l"
    by (rule js_split_no_sep)
  with set_cleanLine [of l] show ?thesis
    by blast
qed

lemma split_cleanedContent:
  "js_split (0x0A::nat) (cleanedContent c) = map cleanLine (js_split (0x0A::nat) c)"
proof -
  have "\<forall>l \<in> set (map cleanLine (js_split (0x0A::nat) c)). (0x0A::nat) \<notin> set l"
    by (simp add: cleanLine_no_newline)
  moreover have "map cleanLine (js_split (0x0A::nat) c) \<noteq> []"
    by (simp add: js_split_not_Nil)
  ultimately show ?thesis
    unfolding cleanedContent_def by (rule js_split_join [rotated])
qed

lemma cleanedContent_idem: "cleanedContent (cleanedContent c) = cleanedContent c"
proof -
  have "map cleanLine (js_split (0x0A::nat) (cleanedContent c)) = map cleanLine (js_split (0x0A::nat) c)"
    by (simp add: split_cleanedContent cleanLine_idem)
  then have "js_join (0x0A::nat) (map cleanLine (js_split (0x0A::nat) (cleanedContent c))) =
             js_join (0x0A::nat) (map cleanLine (js_split (0x0A::nat) c))"
    by (rule arg_cong)
  then show ?thesis
    by (simp only: cleanedContent_def [symmetric])
qed

subsection \<open>Decoding what was encoded\<close>

lemma decode_1:
  assumes "cp < 0x80"
  shows "utf8_decode (utf8_encode_cp cp @ rest) = cp # utf8_decode rest"
  using assms by (simp add: utf8_encode_cp_def Let_def)

lemma decode_bytes_2:
  assumes "0xC2 \<le> b" "b \<le> 0xDF" "0x80 \<le> c" "c \<le> 0xBF"
  shows "utf8_decode (char_of b # char_of c # rest) = ((b - 0xC0) * 64 + (c - 0x80)) # utf8_decode rest"
proof -
  have "(of_char (char_of b) :: nat) = b" "(of_char (char_of c) :: nat) = c"
    using assms by simp_all
  with assms show ?thesis
    by (simp add: Let_def continuation_def)
qed

lemma decode_bytes_3:
  assumes "0xE0 \<le> b" "b \<le> 0xEF" "0x80 \<le> c" "c \<le> 0xBF" "0x80 \<le> d" "d \<le> 0xBF"
    and "b = 0xE0 \<longrightarrow> 0xA0 \<le> c" and "b = 0xED \<longrightarrow> c \<le> 0x9F"
  shows "utf8_decode (char_of b # char_of c # char_of d # rest) =
           ((b - 0xE0) * 4096 + (c - 0x80) * 64 + (d - 0x80)) # utf8_decode rest"
proof -
  have "(of_char (char_of b) :: nat) = b" "(of_char (char_of c) :: nat) = c" "(of_char (char_of d) :: nat) = d"
    using assms by simp_all
  with assms show ?thesis
    by (simp add: Let_def continuation_def)
qed

lemma decode_bytes_4:
  assumes "0xF0 \<le> b" "b \<le> 0xF4" "0x80 \<le> c" "c \<le> 0xBF" "0x80 \<le> d" "d \<le> 0xBF" "0x80 \<le> e" "e \<le> 0xBF"
    and "b = 0xF0 \<longrightarrow> 0x90 \<le> c" and "b = 0xF4 \<longrightarrow> c \<le> 0x8F"
  shows "utf8_decode (char_of b # char_of c # char_of d # char_of e # rest) =
           ((b - 0xF0) * 262144 + (c - 0x80) * 4096 + (d - 0x80) * 64 + (e - 0x80)) # utf8_decode rest"
proof -
  have "(of_char (char_of b) :: nat) = b" "(of_char (char_of c) :: nat) = c"
    "(of_char (char_of d) :: nat) = d" "(of_char (char_of e) :: nat) = e"
    using assms by simp_all
  with assms show ?thesis
    by (simp add: Let_def continuation_def)
qed

lemma decode_2:
  assumes "0x80 \<le> cp" and "cp < 0x800"
  shows "utf8_decode (utf8_encode_cp cp @ rest) = cp # utf8_decode rest"
proof -
  define b where "b = 0xC0 + cp div 64"
  define c where "c = 0x80 + cp mod 64"
  have e: "utf8_encode_cp cp = [char_of b, char_of c]"
    using assms by (simp add: utf8_encode_cp_def b_def c_def)
  have bounds: "0xC2 \<le> b" "b \<le> 0xDF" "0x80 \<le> c" "c \<le> 0xBF"
    using assms by (simp_all add: b_def c_def)
  have "(b - 0xC0) * 64 + (c - 0x80) = cp"
    by (simp add: b_def c_def)
  with decode_bytes_2 [OF bounds, of rest] show ?thesis
    by (simp add: e)
qed

lemma split_cp_3:
  fixes cp :: nat
  shows "cp = cp div 4096 * 4096 + cp div 64 mod 64 * 64 + cp mod 64"
proof -
  have "cp div 4096 = cp div 64 div 64"
    by (simp add: div_mult2_eq [symmetric])
  moreover have "cp div 64 = cp div 64 div 64 * 64 + cp div 64 mod 64"
    by simp
  moreover have "cp = cp div 64 * 64 + cp mod 64"
    by simp
  ultimately show ?thesis
    by linarith
qed

lemma split_cp_4:
  fixes cp :: nat
  shows "cp = cp div 262144 * 262144 + cp div 4096 mod 64 * 4096 + cp div 64 mod 64 * 64 + cp mod 64"
proof -
  have "cp div 262144 = cp div 4096 div 64"
    by (simp add: div_mult2_eq [symmetric])
  moreover have "cp div 4096 = cp div 4096 div 64 * 64 + cp div 4096 mod 64"
    by simp
  moreover have "cp = cp div 4096 * 4096 + cp div 64 mod 64 * 64 + cp mod 64"
    by (rule split_cp_3)
  ultimately show ?thesis
    by linarith
qed

lemma decode_3:
  assumes "0x800 \<le> cp" and "cp < 0x10000" and "scalar_value cp"
  shows "utf8_decode (utf8_encode_cp cp @ rest) = cp # utf8_decode rest"
proof -
  define q where "q = cp div 4096"
  define s where "s = cp div 64 mod 64"
  define u where "u = cp mod 64"
  have cp: "cp = q * 4096 + s * 64 + u"
    unfolding q_def s_def u_def by (rule split_cp_3)
  have small: "s < 64" "u < 64"
    by (simp_all add: s_def u_def)
  have e: "utf8_encode_cp cp = [char_of (0xE0 + q), char_of (0x80 + s), char_of (0x80 + u)]"
    using assms by (simp add: utf8_encode_cp_def q_def s_def u_def)
  have q: "q < 16"
    using assms(2) cp by linarith
  have bounds: "0xE0 \<le> 0xE0 + q" "0xE0 + q \<le> 0xEF" "0x80 \<le> 0x80 + s" "0x80 + s \<le> 0xBF"
    "0x80 \<le> 0x80 + u" "0x80 + u \<le> 0xBF"
    using q small by simp_all
  have lo: "0xE0 + q = 0xE0 \<longrightarrow> 0xA0 \<le> 0x80 + s"
    using assms(1) cp small by linarith
  have hi: "0xE0 + q = 0xED \<longrightarrow> 0x80 + s \<le> 0x9F"
    using assms(2,3) cp small unfolding scalar_value_def by linarith
  have "(0xE0 + q - 0xE0) * 4096 + (0x80 + s - 0x80) * 64 + (0x80 + u - 0x80) = cp"
    using cp by simp
  with decode_bytes_3 [OF bounds lo hi, of rest] show ?thesis
    by (simp only: e append_Cons append_Nil)
qed

lemma decode_4:
  assumes "0x10000 \<le> cp" and "cp < 0x110000"
  shows "utf8_decode (utf8_encode_cp cp @ rest) = cp # utf8_decode rest"
proof -
  define q where "q = cp div 262144"
  define r where "r = cp div 4096 mod 64"
  define s where "s = cp div 64 mod 64"
  define u where "u = cp mod 64"
  have cp: "cp = q * 262144 + r * 4096 + s * 64 + u"
    unfolding q_def r_def s_def u_def by (rule split_cp_4)
  have small: "r < 64" "s < 64" "u < 64"
    by (simp_all add: r_def s_def u_def)
  have sv: "scalar_value cp"
    using assms by (simp add: scalar_value_def)
  have e: "utf8_encode_cp cp =
      [char_of (0xF0 + q), char_of (0x80 + r), char_of (0x80 + s), char_of (0x80 + u)]"
    using assms sv by (simp add: utf8_encode_cp_def q_def r_def s_def u_def)
  have q: "q < 5"
    using assms(2) cp by linarith
  have bounds: "0xF0 \<le> 0xF0 + q" "0xF0 + q \<le> 0xF4" "0x80 \<le> 0x80 + r" "0x80 + r \<le> 0xBF"
    "0x80 \<le> 0x80 + s" "0x80 + s \<le> 0xBF" "0x80 \<le> 0x80 + u" "0x80 + u \<le> 0xBF"
    using q small by simp_all
  have lo: "0xF0 + q = 0xF0 \<longrightarrow> 0x90 \<le> 0x80 + r"
    using assms(1) cp small by linarith
  have hi: "0xF0 + q = 0xF4 \<longrightarrow> 0x80 + r \<le> 0x8F"
    using assms(2) cp small by linarith
  have "(0xF0 + q - 0xF0) * 262144 + (0x80 + r - 0x80) * 4096 + (0x80 + s - 0x80) * 64
          + (0x80 + u - 0x80) = cp"
    using cp by simp
  with decode_bytes_4 [OF bounds lo hi, of rest] show ?thesis
    by (simp only: e append_Cons append_Nil)
qed

lemma decode_encode_cp:
  assumes "scalar_value cp"
  shows "utf8_decode (utf8_encode_cp cp @ rest) = cp # utf8_decode rest"
proof -
  consider "cp < 0x80" | "0x80 \<le> cp \<and> cp < 0x800" | "0x800 \<le> cp \<and> cp < 0x10000"
    | "0x10000 \<le> cp \<and> cp < 0x110000"
    using assms unfolding scalar_value_def by linarith
  then show ?thesis
  proof cases
    case 1 then show ?thesis by (rule decode_1)
  next
    case 2 then show ?thesis by (simp add: decode_2)
  next
    case 3 with assms show ?thesis by (simp add: decode_3)
  next
    case 4 then show ?thesis by (simp add: decode_4)
  qed
qed

lemma utf8_encode_Nil [simp]: "utf8_encode [] = []"
  by (simp add: utf8_encode_def)

lemma utf8_encode_Cons: "utf8_encode (cp # t) = utf8_encode_cp cp @ utf8_encode t"
  by (simp add: utf8_encode_def)

lemma utf8_encode_append: "utf8_encode (s @ t) = utf8_encode s @ utf8_encode t"
  by (simp add: utf8_encode_def)

lemma decode_encode:
  assumes "list_all scalar_value t"
  shows "utf8_decode (utf8_encode t) = t"
  using assms by (induction t) (simp_all add: utf8_encode_Cons decode_encode_cp)

subsection \<open>The bytes of an encoded code point\<close>




subsection \<open>The code points that decoding gives\<close>

lemma scalar_replacement: "scalar_value 0xFFFD"
  by (simp add: scalar_value_def)

lemma scalar_1: "n < 0x80 \<Longrightarrow> scalar_value n"
  by (simp add: scalar_value_def)

lemma sum_3_le:
  fixes a b c :: nat
  assumes "a \<le> A" "b \<le> B" "c \<le> C"
  shows "a * 4096 + b * 64 + c \<le> A * 4096 + B * 64 + C"
  using assms by (intro add_mono mult_le_mono1)

lemma sum_4_le:
  fixes a b c d :: nat
  assumes "a \<le> A" "b \<le> B" "c \<le> C" "d \<le> D"
  shows "a * 262144 + b * 4096 + c * 64 + d \<le> A * 262144 + B * 4096 + C * 64 + D"
  using assms by (intro add_mono mult_le_mono1)

lemma scalar_2:
  assumes "n \<le> 0xDF" "c \<le> 0xBF"
  shows "scalar_value ((n - 0xC0) * 64 + (c - 0x80))"
proof -
  have "n - 0xC0 \<le> 31" "c - 0x80 \<le> 63"
    using assms by simp_all
  then have "(n - 0xC0) * 64 + (c - 0x80) \<le> 31 * 64 + 63"
    by (intro add_mono mult_le_mono1)
  then show ?thesis
    by (simp add: scalar_value_def)
qed

lemma scalar_3:
  assumes "0xE0 \<le> n" "n \<le> 0xEF" "c \<le> (if n = 0xED then 0x9F else 0xBF)" "d \<le> 0xBF"
  shows "scalar_value ((n - 0xE0) * 4096 + (c - 0x80) * 64 + (d - 0x80))"
proof -
  have d: "d - 0x80 \<le> 63"
    using assms by simp
  consider "n < 0xED" | "n = 0xED" | "0xED < n" by linarith
  then show ?thesis
  proof cases
    case 1
    then have "n - 0xE0 \<le> 12" "c - 0x80 \<le> 63"
      using assms by simp_all
    then have "(n - 0xE0) * 4096 + (c - 0x80) * 64 + (d - 0x80) \<le> 12 * 4096 + 63 * 64 + 63"
      using d by (intro sum_3_le)
    then show ?thesis
      by (simp add: scalar_value_def)
  next
    case 2
    then have "n - 0xE0 \<le> 13" "c - 0x80 \<le> 31"
      using assms by simp_all
    then have "(n - 0xE0) * 4096 + (c - 0x80) * 64 + (d - 0x80) \<le> 13 * 4096 + 31 * 64 + 63"
      using d by (intro sum_3_le)
    then show ?thesis
      by (simp add: scalar_value_def)
  next
    case 3
    then have "14 \<le> n - 0xE0" "n - 0xE0 \<le> 15" "c - 0x80 \<le> 63"
      using assms by simp_all
    then have "(n - 0xE0) * 4096 + (c - 0x80) * 64 + (d - 0x80) \<le> 15 * 4096 + 63 * 64 + 63"
      and "14 * 4096 \<le> (n - 0xE0) * 4096"
      using d by (intro sum_3_le, simp_all)
    then show ?thesis
      by (simp add: scalar_value_def)
  qed
qed

lemma scalar_4:
  assumes "0xF0 \<le> n" "n \<le> 0xF4" "(if n = 0xF0 then 0x90 else 0x80) \<le> c"
    "c \<le> (if n = 0xF4 then 0x8F else 0xBF)" "d \<le> 0xBF" "e \<le> 0xBF"
  shows "scalar_value ((n - 0xF0) * 262144 + (c - 0x80) * 4096 + (d - 0x80) * 64 + (e - 0x80))"
proof -
  have d: "d - 0x80 \<le> 63" "e - 0x80 \<le> 63"
    using assms by simp_all
  consider "n = 0xF0" | "0xF0 < n \<and> n < 0xF4" | "n = 0xF4" using assms(1,2) by linarith
  then show ?thesis
  proof cases
    case 1
    then have "n - 0xF0 \<le> 0" "16 \<le> c - 0x80" "c - 0x80 \<le> 63"
      using assms by simp_all
    then have "(n - 0xF0) * 262144 + (c - 0x80) * 4096 + (d - 0x80) * 64 + (e - 0x80)
                 \<le> 0 * 262144 + 63 * 4096 + 63 * 64 + 63"
      and "16 * 4096 \<le> (c - 0x80) * 4096"
      using d by (intro sum_4_le, simp_all)
    then show ?thesis
      by (simp add: scalar_value_def)
  next
    case 2
    then have "1 \<le> n - 0xF0" "n - 0xF0 \<le> 3" "c - 0x80 \<le> 63"
      using assms by (auto split: if_splits)
    then have "(n - 0xF0) * 262144 + (c - 0x80) * 4096 + (d - 0x80) * 64 + (e - 0x80)
                 \<le> 3 * 262144 + 63 * 4096 + 63 * 64 + 63"
      and "1 * 262144 \<le> (n - 0xF0) * 262144"
      using d by (intro sum_4_le mult_le_mono1, simp_all)
    then show ?thesis
      by (simp add: scalar_value_def)
  next
    case 3
    then have "4 \<le> n - 0xF0" "n - 0xF0 \<le> 4" "c - 0x80 \<le> 15"
      using assms by simp_all
    then have "(n - 0xF0) * 262144 + (c - 0x80) * 4096 + (d - 0x80) * 64 + (e - 0x80)
                 \<le> 4 * 262144 + 15 * 4096 + 63 * 64 + 63"
      and "4 * 262144 \<le> (n - 0xF0) * 262144"
      using d by (intro sum_4_le mult_le_mono1, simp_all)
    then show ?thesis
      by (simp add: scalar_value_def)
  qed
qed

lemma scalar_ConsI:
  assumes "xs = cp # utf8_decode rest" and "scalar_value cp"
    and "list_all scalar_value (utf8_decode rest)"
  shows "list_all scalar_value xs"
  using assms by (simp del: utf8_decode.simps)

lemma decode_scalar: "list_all scalar_value (utf8_decode bs)"
proof (induction "length bs" arbitrary: bs rule: less_induct)
  case less
  show ?case
  proof (cases bs)
    case Nil
    then show ?thesis by simp
  next
    case (Cons b bs')
    have IH: "list_all scalar_value (utf8_decode rest)" if "length rest \<le> length bs'" for rest
      using less [of rest] that Cons by simp
    define n :: nat where "n = of_char b"
    consider "n < 0x80" | "0xC2 \<le> n \<and> n \<le> 0xDF" | "0xE0 \<le> n \<and> n \<le> 0xEF"
      | "0xF0 \<le> n \<and> n \<le> 0xF4" | "0x80 \<le> n \<and> n < 0xC2 \<or> 0xF4 < n"
      by linarith
    then show ?thesis
    proof cases
      case 1
      show ?thesis
        unfolding Cons
      proof (rule scalar_ConsI)
        show "utf8_decode (b # bs') = n # utf8_decode bs'"
          using 1 by (simp add: n_def)
        show "scalar_value n"
          using 1 by (rule scalar_1)
        show "list_all scalar_value (utf8_decode bs')"
          by (rule IH) simp
      qed
    next
      case 2
      show ?thesis
      proof (cases bs')
        case Nil
        with 2 show ?thesis
          unfolding Cons by (simp add: n_def scalar_replacement)
      next
        case c: (Cons c cs)
        show ?thesis
        proof (cases "continuation 0x80 0xBF c")
          case True
          show ?thesis
            unfolding Cons c
          proof (rule scalar_ConsI)
            show "utf8_decode (b # c # cs) = ((n - 0xC0) * 64 + (of_char c - 0x80)) # utf8_decode cs"
              using 2 True by (simp add: n_def [symmetric])
            show "scalar_value ((n - 0xC0) * 64 + (of_char c - 0x80))"
              using 2 True by (intro scalar_2) (simp_all add: continuation_def)
            show "list_all scalar_value (utf8_decode cs)"
              by (rule IH) (simp add: c)
          qed
        next
          case False
          show ?thesis
            unfolding Cons c
          proof (rule scalar_ConsI)
            show "utf8_decode (b # c # cs) = 0xFFFD # utf8_decode (c # cs)"
              using 2 False
              by (subst utf8_decode.simps) (simp add: n_def [symmetric] del: utf8_decode.simps)
            show "scalar_value 0xFFFD"
              by (rule scalar_replacement)
            show "list_all scalar_value (utf8_decode (c # cs))"
              by (rule IH) (simp add: c)
          qed
        qed
      qed
    next
      case 3
      define lo :: nat where "lo = (if n = 0xE0 then 0xA0 else 0x80)"
      define hi :: nat where "hi = (if n = 0xED then 0x9F else 0xBF)"
      show ?thesis
      proof (cases bs')
        case Nil
        with 3 show ?thesis
          unfolding Cons by (simp add: n_def scalar_replacement)
      next
        case c: (Cons c cs)
        show ?thesis
        proof (cases "continuation lo hi c")
          case False
          show ?thesis
            unfolding Cons c
          proof (rule scalar_ConsI)
            show "utf8_decode (b # c # cs) = 0xFFFD # utf8_decode (c # cs)"
              using 3 False unfolding lo_def hi_def
              by (subst utf8_decode.simps) (simp add: n_def [symmetric] del: utf8_decode.simps)
            show "scalar_value 0xFFFD"
              by (rule scalar_replacement)
            show "list_all scalar_value (utf8_decode (c # cs))"
              by (rule IH) (simp add: c)
          qed
        next
          case True
          show ?thesis
          proof (cases cs)
            case Nil
            with 3 True show ?thesis
              unfolding Cons c lo_def hi_def by (simp add: n_def [symmetric] scalar_replacement)
          next
            case d: (Cons d ds)
            show ?thesis
            proof (cases "continuation 0x80 0xBF d")
              case d_ok: True
              show ?thesis
                unfolding Cons c d
              proof (rule scalar_ConsI)
                show "utf8_decode (b # c # d # ds) =
                    ((n - 0xE0) * 4096 + (of_char c - 0x80) * 64 + (of_char d - 0x80)) # utf8_decode ds"
                  using 3 True d_ok unfolding lo_def hi_def by (simp add: n_def [symmetric])
                show "scalar_value ((n - 0xE0) * 4096 + (of_char c - 0x80) * 64 + (of_char d - 0x80))"
                  using 3 True d_ok unfolding lo_def hi_def
                  by (intro scalar_3) (simp_all add: continuation_def)
                show "list_all scalar_value (utf8_decode ds)"
                  by (rule IH) (simp add: c d)
              qed
            next
              case d_bad: False
              show ?thesis
                unfolding Cons c d
              proof (rule scalar_ConsI)
                show "utf8_decode (b # c # d # ds) = 0xFFFD # utf8_decode (d # ds)"
                  using 3 True d_bad unfolding lo_def hi_def
                  by (subst utf8_decode.simps) (simp add: n_def [symmetric] del: utf8_decode.simps)
                show "scalar_value 0xFFFD"
                  by (rule scalar_replacement)
                show "list_all scalar_value (utf8_decode (d # ds))"
                  by (rule IH) (simp add: c d)
              qed
            qed
          qed
        qed
      qed
    next
      case 4
      define lo :: nat where "lo = (if n = 0xF0 then 0x90 else 0x80)"
      define hi :: nat where "hi = (if n = 0xF4 then 0x8F else 0xBF)"
      show ?thesis
      proof (cases bs')
        case Nil
        with 4 show ?thesis
          unfolding Cons by (simp add: n_def scalar_replacement)
      next
        case c: (Cons c cs)
        show ?thesis
        proof (cases "continuation lo hi c")
          case False
          show ?thesis
            unfolding Cons c
          proof (rule scalar_ConsI)
            show "utf8_decode (b # c # cs) = 0xFFFD # utf8_decode (c # cs)"
              using 4 False unfolding lo_def hi_def
              by (subst utf8_decode.simps) (simp add: n_def [symmetric] del: utf8_decode.simps)
            show "scalar_value 0xFFFD"
              by (rule scalar_replacement)
            show "list_all scalar_value (utf8_decode (c # cs))"
              by (rule IH) (simp add: c)
          qed
        next
          case True
          show ?thesis
          proof (cases cs)
            case Nil
            with 4 True show ?thesis
              unfolding Cons c lo_def hi_def by (simp add: n_def [symmetric] scalar_replacement)
          next
            case d: (Cons d ds)
            show ?thesis
            proof (cases "continuation 0x80 0xBF d")
              case d_bad: False
              show ?thesis
                unfolding Cons c d
              proof (rule scalar_ConsI)
                show "utf8_decode (b # c # d # ds) = 0xFFFD # utf8_decode (d # ds)"
                  using 4 True d_bad unfolding lo_def hi_def
                  by (subst utf8_decode.simps) (simp add: n_def [symmetric] del: utf8_decode.simps)
                show "scalar_value 0xFFFD"
                  by (rule scalar_replacement)
                show "list_all scalar_value (utf8_decode (d # ds))"
                  by (rule IH) (simp add: c d)
              qed
            next
              case d_ok: True
              show ?thesis
              proof (cases ds)
                case Nil
                with 4 True d_ok show ?thesis
                  unfolding Cons c d lo_def hi_def by (simp add: n_def [symmetric] scalar_replacement)
              next
                case e: (Cons e es)
                show ?thesis
                proof (cases "continuation 0x80 0xBF e")
                  case e_ok: True
                  show ?thesis
                    unfolding Cons c d e
                  proof (rule scalar_ConsI)
                    show "utf8_decode (b # c # d # e # es) =
                        ((n - 0xF0) * 262144 + (of_char c - 0x80) * 4096 + (of_char d - 0x80) * 64
                          + (of_char e - 0x80)) # utf8_decode es"
                      using 4 True d_ok e_ok unfolding lo_def hi_def by (simp add: n_def [symmetric])
                    show "scalar_value ((n - 0xF0) * 262144 + (of_char c - 0x80) * 4096
                        + (of_char d - 0x80) * 64 + (of_char e - 0x80))"
                      using 4 True d_ok e_ok unfolding lo_def hi_def
                      by (intro scalar_4) (simp_all add: continuation_def)
                    show "list_all scalar_value (utf8_decode es)"
                      by (rule IH) (simp add: c d e)
                  qed
                next
                  case e_bad: False
                  show ?thesis
                    unfolding Cons c d e
                  proof (rule scalar_ConsI)
                    show "utf8_decode (b # c # d # e # es) = 0xFFFD # utf8_decode (e # es)"
                      using 4 True d_ok e_bad unfolding lo_def hi_def
                      by (subst utf8_decode.simps) (simp add: n_def [symmetric] del: utf8_decode.simps)
                    show "scalar_value 0xFFFD"
                      by (rule scalar_replacement)
                    show "list_all scalar_value (utf8_decode (e # es))"
                      by (rule IH) (simp add: c d e)
                  qed
                qed
              qed
            qed
          qed
        qed
      qed
    next
      case 5
      show ?thesis
        unfolding Cons
      proof (rule scalar_ConsI)
        show "utf8_decode (b # bs') = 0xFFFD # utf8_decode bs'"
          using 5 by (auto simp: n_def [symmetric])
        show "scalar_value 0xFFFD"
          by (rule scalar_replacement)
        show "list_all scalar_value (utf8_decode bs')"
          by (rule IH) simp
      qed
    qed
  qed
qed

subsection \<open>Lines and quotes of an encoded text\<close>







subsection \<open>Searching an encoded text for a word of ASCII characters\<close>





subsection \<open>The code points of the cleaned text\<close>

lemma set_js_split: "l \<in> set (js_split sep s) \<Longrightarrow> set l \<subseteq> set s"
proof (induction s arbitrary: l)
  case Nil
  then show ?case by simp
next
  case (Cons a s)
  show ?case
  proof (cases "a = sep")
    case True
    with Cons.prems have "l = [] \<or> l \<in> set (js_split sep s)"
      by simp
    with Cons.IH show ?thesis
      by auto
  next
    case False
    obtain l' ls where s: "js_split sep s = l' # ls"
      using js_split_not_Nil [of sep s] by (cases "js_split sep s") simp_all
    with False Cons.prems have "l = a # l' \<or> l \<in> set ls"
      by simp
    moreover have "set l' \<subseteq> set s" "\<And>k. k \<in> set ls \<Longrightarrow> set k \<subseteq> set s"
      using Cons.IH s by simp_all
    ultimately show ?thesis
      by auto
  qed
qed

lemma set_js_join: "set (js_join sep ls) \<subseteq> insert sep (\<Union>l \<in> set ls. set l)"
  by (induction sep ls rule: js_join.induct) auto

lemma set_cleanedContent: "set (cleanedContent t) \<subseteq> insert 0x0A (set t)"
proof
  fix x
  assume "x \<in> set (cleanedContent t)"
  then have "x = 0x0A \<or> (\<exists>l \<in> set (js_split 0x0A t). x \<in> set (cleanLine l))"
    using set_js_join [of "0x0A" "map cleanLine (js_split 0x0A t)"]
    by (auto simp: cleanedContent_def)
  then show "x \<in> insert 0x0A (set t)"
    using set_cleanLine set_js_split by fastforce
qed

lemma cleanedContent_scalar:
  assumes "list_all scalar_value t"
  shows "list_all scalar_value (cleanedContent t)"
proof -
  have "scalar_value 0x0A"
    by (simp add: scalar_value_def)
  with assms set_cleanedContent [of t] show ?thesis
    by (auto simp: list_all_iff)
qed

lemma decode_encode_cleaned:
  "utf8_decode (utf8_encode (cleanedContent (utf8_decode bs))) = cleanedContent (utf8_decode bs)"
  by (intro decode_encode cleanedContent_scalar decode_scalar)

subsection \<open>Valid files\<close>


lemma valid_utf8_encode:
  assumes "list_all scalar_value t"
  shows "valid_utf8 (utf8_encode t)"
  using assms by (simp add: valid_utf8_def decode_encode)

lemma valid_utf8_iff: "valid_utf8 bs \<longleftrightarrow> (\<exists>t. list_all scalar_value t \<and> bs = utf8_encode t)"
proof
  assume "valid_utf8 bs"
  then have "bs = utf8_encode (utf8_decode bs)"
    by (simp add: valid_utf8_def)
  with decode_scalar [of bs] show "\<exists>t. list_all scalar_value t \<and> bs = utf8_encode t"
    by blast
next
  assume "\<exists>t. list_all scalar_value t \<and> bs = utf8_encode t"
  then show "valid_utf8 bs"
    using valid_utf8_encode by blast
qed

subsection \<open>The clean-up of a file\<close>

lemma clean_subtitle_file_run:
  assumes "fs p = Some f" and "readable f" and "writable f"
  shows "clean_subtitle_file p fs =
           fs(p \<mapsto> f\<lparr>content := utf8_encode (cleanedContent (utf8_decode (content f)))\<rparr>)"
  using assms by (simp add: clean_subtitle_file_def readFileSync_def writeFileSync_def)

lemma clean_subtitle_file_caught:
  assumes "fs p = Some f" and "\<not> readable f \<or> \<not> writable f"
  shows "clean_subtitle_file p fs = fs"
  using assms by (auto simp: clean_subtitle_file_def readFileSync_def writeFileSync_def)

lemma clean_subtitle_file_missing:
  assumes "fs p = None"
  shows "clean_subtitle_file p fs = fs"
  using assms by (simp add: clean_subtitle_file_def readFileSync_def)

lemma clean_subtitle_file_idem:
  "clean_subtitle_file p (clean_subtitle_file p fs) = clean_subtitle_file p fs"
proof (cases "fs p")
  case None
  then show ?thesis
    by (simp add: clean_subtitle_file_missing)
next
  case (Some f)
  show ?thesis
  proof (cases "readable f \<and> writable f")
    case True
    let ?g = "f\<lparr>content := utf8_encode (cleanedContent (utf8_decode (content f)))\<rparr>"
    have 1: "clean_subtitle_file p fs = fs(p \<mapsto> ?g)"
      using Some True by (simp add: clean_subtitle_file_run)
    have "clean_subtitle_file p (fs(p \<mapsto> ?g)) =
        (fs(p \<mapsto> ?g))(p \<mapsto> ?g\<lparr>content := utf8_encode (cleanedContent (utf8_decode (content ?g)))\<rparr>)"
      using True by (intro clean_subtitle_file_run) simp_all
    also have "\<dots> = fs(p \<mapsto> ?g)"
      by (simp add: decode_encode_cleaned cleanedContent_idem)
    finally show ?thesis
      by (simp only: 1)
  next
    case False
    with Some have "clean_subtitle_file p fs = fs"
      by (intro clean_subtitle_file_caught) auto
    then show ?thesis by simp
  qed
qed

subsection \<open>The lines of a cleaned file\<close>






subsection \<open>Structure preservation\<close>







subsection \<open>Idempotence\<close>

text \<open>
  Claim C7. Cleaning twice is cleaning once: for the text read from a file, and for the
  file itself as the handler rewrites it in place, read as UTF-8, cleaned and written as
  UTF-8. This holds also when the file is not valid UTF-8 (the first pass writes a valid
  file, in which the second finds nothing to replace) and when the file is missing or
  cannot be read or written (both leave it as it was).
\<close>

theorem normalizer_idempotent:
  "cleanedContent (cleanedContent c) = cleanedContent c \<and>
   clean_subtitle_file p (clean_subtitle_file p fs) = clean_subtitle_file p fs"
  by (simp add: cleanedContent_idem clean_subtitle_file_idem)

section \<open>Properties of the handlers\<close>

subsection \<open>Running commands\<close>


subsection \<open>The interactive handler on a subtitle stream\<close>

lemma interactive_subtitle:
  assumes "codec_type stream = ''subtitle''"
    and "outputPath = path_join tempDir (''mx-player-'' @ show_nat now @ ''_sub_'' @ show_nat (index stream) @ ''.vtt'')"
    and "command = ''ffmpeg -y -i \"'' @ filePath @ ''\" -map 0:'' @ show_nat (index stream)
                         @ '' -c:s webvtt \"'' @ outputPath @ ''\"''"
    and "proc command (files w) = (None, fs')"
    and "fs' outputPath = Some f" and "readable f" and "writable f"
  shows "extract_stream tempDir now proc filePath stream w =
           (Inr outputPath,
            \<lparr>files = fs'(outputPath \<mapsto> f\<lparr>content := utf8_encode (cleanedContent (utf8_decode (content f)))\<rparr>),
             spawned = spawned w @ [command]\<rparr>)"
  using assms
  by (simp add: extract_stream_def Let_def run_command_def exec_def clean_subtitle_file_def
      readFileSync_def writeFileSync_def)

lemma interactive_subtitle_not_cleaned:
  assumes "codec_type stream = ''subtitle''"
    and "outputPath = path_join tempDir (''mx-player-'' @ show_nat now @ ''_sub_'' @ show_nat (index stream) @ ''.vtt'')"
    and "command = ''ffmpeg -y -i \"'' @ filePath @ ''\" -map 0:'' @ show_nat (index stream)
                         @ '' -c:s webvtt \"'' @ outputPath @ ''\"''"
    and "proc command (files w) = (None, fs')"
    and "\<forall>f. fs' outputPath = Some f \<longrightarrow> \<not> readable f \<or> \<not> writable f"
  shows "extract_stream tempDir now proc filePath stream w =
           (Inr outputPath, \<lparr>files = fs', spawned = spawned w @ [command]\<rparr>)"
proof -
  have "clean_subtitle_file outputPath fs' = fs'"
    using assms(5)
    by (auto simp: clean_subtitle_file_def readFileSync_def writeFileSync_def split: option.splits)
  with assms(1-4) show ?thesis
    by (simp add: extract_stream_def Let_def run_command_def exec_def)
qed

subsection \<open>Running a list of commands\<close>

lemma exec_eq:
  "exec proc c w = (r, w') \<Longrightarrow>
     r = fst (proc c (files w)) \<and> files w' = snd (proc c (files w)) \<and> spawned w' = spawned w @ [c]"
  by (auto simp: exec_def split: prod.splits)

lemma run_all_spawned: "spawned (snd (run_all proc cs w)) = spawned w @ cs"
proof (induction cs arbitrary: w)
  case Nil
  then show ?case by simp
next
  case (Cons c cs)
  obtain r w' where e: "exec proc c w = (r, w')" by (cases "exec proc c w")
  obtain rs w'' where a: "run_all proc cs w' = (rs, w'')" by (cases "run_all proc cs w'")
  from Cons.IH [of w'] a have "spawned w'' = spawned w' @ cs" by simp
  with exec_eq [OF e] e a show ?case by simp
qed

lemma run_all_files:
  "files (snd (run_all proc cs w)) = foldl (\<lambda>fs c. snd (proc c fs)) (files w) cs"
proof (induction cs arbitrary: w)
  case Nil
  then show ?case by simp
next
  case (Cons c cs)
  obtain r w' where e: "exec proc c w = (r, w')" by (cases "exec proc c w")
  obtain rs w'' where a: "run_all proc cs w' = (rs, w'')" by (cases "run_all proc cs w'")
  from Cons.IH [of w'] a have "files w'' = foldl (\<lambda>fs c. snd (proc c fs)) (files w') cs" by simp
  with exec_eq [OF e] e a show ?case by simp
qed

lemma promise_all_world:
  "spawned (snd (promise_all proc cs rs w)) = spawned w @ cs"
  "files (snd (promise_all proc cs rs w)) = foldl (\<lambda>fs c. snd (proc c fs)) (files w) cs"
  using run_all_spawned [of proc cs w] run_all_files [of proc cs w]
  by (auto simp: promise_all_def split: prod.splits option.splits)

lemma promise_all_Inr: "promise_all proc cs rs w = (Inr x, w') \<Longrightarrow> x = rs"
  by (auto simp: promise_all_def split: prod.splits option.splits)

lemma first_rejection_None_iff: "first_rejection rs = None \<longleftrightarrow> (\<forall>r \<in> set rs. r = None)"
  by (induction rs rule: first_rejection.induct) simp_all

lemma promise_all_rejected:
  assumes "run_all proc cs w = (rs, w')" and "\<exists>r \<in> set rs. r \<noteq> None"
  shows "\<exists>err. promise_all proc cs results w = (Inl err, w')"
proof -
  from assms(2) have "first_rejection rs \<noteq> None"
    by (simp add: first_rejection_None_iff)
  then obtain err where "first_rejection rs = Some err"
    by auto
  with assms(1) show ?thesis
    by (simp add: promise_all_def)
qed

lemma promise_all_fulfilled:
  assumes "run_all proc cs w = (rs, w')" and "\<forall>r \<in> set rs. r = None"
  shows "promise_all proc cs results w = (Inr results, w')"
  using assms by (simp add: promise_all_def first_rejection_None_iff [symmetric])

subsection \<open>The batch handler, step by step\<close>

lemma process_upload_unfold:
  assumes "ffprobe env (path file) = Inr md" and "streams md = Some ss" and "ss \<noteq> []"
  shows "process_upload env file w =
     (case exec (run env)
             (video_command (path file) (snd (getFilePaths env (filename file))) (videoStream ss)) w of
        (Some err, w1) \<Rightarrow> (Inl err, w1)
      | (None, w1) \<Rightarrow>
          (case promise_all (run env)
                  (audio_commands (path file) (snd (getFilePaths env (filename file))) (audioStreams ss))
                  (audio_track_list (fst (getFilePaths env (filename file))) (audioStreams ss)) w1 of
             (Inl err, w2) \<Rightarrow> (Inl err, w2)
           | (Inr audio_tracks, w2) \<Rightarrow>
               (case promise_all (run env)
                       (subtitle_commands (path file) (snd (getFilePaths env (filename file))) (subtitleStreams ss))
                       (subtitle_track_list (fst (getFilePaths env (filename file))) (subtitleStreams ss)) w2 of
                  (Inl err, w3) \<Rightarrow> (Inl err, w3)
                | (Inr subtitle_tracks, w3) \<Rightarrow>
                    (Inr \<lparr>videoUrl = ''/processed/'' @ fst (getFilePaths env (filename file)) @ ''/video.mp4'',
                          audioTracks = audio_tracks,
                          subtitleTracks = subtitle_tracks,
                          manifest_filename = originalname file\<rparr>,
                     w3\<lparr>files := cleanupFiles (path file) (files w3)\<rparr>))))"
  using assms by (simp add: process_upload_def Let_def split_beta)

lemma process_upload_success:
  assumes probe: "ffprobe env (path file) = Inr md" "streams md = Some ss" "ss \<noteq> []"
    and ok: "process_upload env file w = (Inr m, w')"
  shows "audioTracks m = audio_track_list (fst (getFilePaths env (filename file))) (audioStreams ss) \<and>
         subtitleTracks m = subtitle_track_list (fst (getFilePaths env (filename file))) (subtitleStreams ss) \<and>
         spawned w' = spawned w @
           video_command (path file) (snd (getFilePaths env (filename file))) (videoStream ss) #
           audio_commands (path file) (snd (getFilePaths env (filename file))) (audioStreams ss) @
           subtitle_commands (path file) (snd (getFilePaths env (filename file))) (subtitleStreams ss) \<and>
         files w' = cleanupFiles (path file)
           (foldl (\<lambda>fs c. snd (run env c fs)) (files w)
             (video_command (path file) (snd (getFilePaths env (filename file))) (videoStream ss) #
              audio_commands (path file) (snd (getFilePaths env (filename file))) (audioStreams ss) @
              subtitle_commands (path file) (snd (getFilePaths env (filename file))) (subtitleStreams ss)))"
proof -
  let ?V = "video_command (path file) (snd (getFilePaths env (filename file))) (videoStream ss)"
  let ?A = "audio_commands (path file) (snd (getFilePaths env (filename file))) (audioStreams ss)"
  let ?S = "subtitle_commands (path file) (snd (getFilePaths env (filename file))) (subtitleStreams ss)"
  let ?AT = "audio_track_list (fst (getFilePaths env (filename file))) (audioStreams ss)"
  let ?ST = "subtitle_track_list (fst (getFilePaths env (filename file))) (subtitleStreams ss)"
  note u = process_upload_unfold [OF probe, of w]
  obtain r1 w1 where e1: "exec (run env) ?V w = (r1, w1)"
    by (cases "exec (run env) ?V w")
  obtain p2 w2 where e2: "promise_all (run env) ?A ?AT w1 = (p2, w2)"
    by (cases "promise_all (run env) ?A ?AT w1")
  obtain p3 w3 where e3: "promise_all (run env) ?S ?ST w2 = (p3, w3)"
    by (cases "promise_all (run env) ?S ?ST w2")
  from ok u e1 have r1: "r1 = None"
    by (cases r1) auto
  from ok u e1 r1 e2 obtain at where p2: "p2 = Inr at"
    by (cases p2) auto
  from ok u e1 r1 e2 p2 e3 obtain st where p3: "p3 = Inr st"
    by (cases p3) auto
  from ok u e1 r1 e2 p2 e3 p3
  have m: "m = \<lparr>videoUrl = ''/processed/'' @ fst (getFilePaths env (filename file)) @ ''/video.mp4'',
                 audioTracks = at, subtitleTracks = st, manifest_filename = originalname file\<rparr>"
    and w': "w' = w3\<lparr>files := cleanupFiles (path file) (files w3)\<rparr>"
    by auto
  have at: "at = ?AT" using e2 p2 promise_all_Inr by blast
  have st: "st = ?ST" using e3 p3 promise_all_Inr by blast
  have s1: "spawned w1 = spawned w @ [?V]" and f1: "files w1 = snd (run env ?V (files w))"
    using exec_eq [OF e1] by simp_all
  have s2: "spawned w2 = spawned w1 @ ?A"
    and f2: "files w2 = foldl (\<lambda>fs c. snd (run env c fs)) (files w1) ?A"
    using promise_all_world [of "run env" ?A ?AT w1] e2 by simp_all
  have s3: "spawned w3 = spawned w2 @ ?S"
    and f3: "files w3 = foldl (\<lambda>fs c. snd (run env c fs)) (files w2) ?S"
    using promise_all_world [of "run env" ?S ?ST w2] e3 by simp_all
  show ?thesis
    by (simp add: m w' at st s1 s2 s3 f1 f2 f3)
qed

lemma process_upload_spawned:
  assumes probe: "ffprobe env (path file) = Inr md" "streams md = Some ss" "ss \<noteq> []"
  shows "\<exists>cs. spawned (snd (process_upload env file w)) = spawned w @
           video_command (path file) (snd (getFilePaths env (filename file))) (videoStream ss) # cs \<and>
           set cs \<subseteq> set (audio_commands (path file) (snd (getFilePaths env (filename file))) (audioStreams ss)) \<union>
                    set (subtitle_commands (path file) (snd (getFilePaths env (filename file))) (subtitleStreams ss))"
proof -
  let ?V = "video_command (path file) (snd (getFilePaths env (filename file))) (videoStream ss)"
  let ?A = "audio_commands (path file) (snd (getFilePaths env (filename file))) (audioStreams ss)"
  let ?S = "subtitle_commands (path file) (snd (getFilePaths env (filename file))) (subtitleStreams ss)"
  let ?AT = "audio_track_list (fst (getFilePaths env (filename file))) (audioStreams ss)"
  let ?ST = "subtitle_track_list (fst (getFilePaths env (filename file))) (subtitleStreams ss)"
  note u = process_upload_unfold [OF probe, of w]
  obtain r1 w1 where e1: "exec (run env) ?V w = (r1, w1)"
    by (cases "exec (run env) ?V w")
  obtain p2 w2 where e2: "promise_all (run env) ?A ?AT w1 = (p2, w2)"
    by (cases "promise_all (run env) ?A ?AT w1")
  obtain p3 w3 where e3: "promise_all (run env) ?S ?ST w2 = (p3, w3)"
    by (cases "promise_all (run env) ?S ?ST w2")
  have s1: "spawned w1 = spawned w @ [?V]"
    using exec_eq [OF e1] by simp
  have s2: "spawned w2 = spawned w1 @ ?A"
    using promise_all_world(1) [of "run env" ?A ?AT w1] e2 by simp
  have s3: "spawned w3 = spawned w2 @ ?S"
    using promise_all_world(1) [of "run env" ?S ?ST w2] e3 by simp
  have "spawned (snd (process_upload env file w)) = spawned w @ ?V # [] \<or>
        spawned (snd (process_upload env file w)) = spawned w @ ?V # ?A \<or>
        spawned (snd (process_upload env file w)) = spawned w @ ?V # (?A @ ?S)"
    using u e1 e2 e3 s1 s2 s3
    by (cases r1; cases p2; cases p3) simp_all
  then show ?thesis
  proof (elim disjE)
    assume "spawned (snd (process_upload env file w)) = spawned w @ ?V # []"
    then show ?thesis by (intro exI [of _ "[]"]) simp
  next
    assume "spawned (snd (process_upload env file w)) = spawned w @ ?V # ?A"
    then show ?thesis by (intro exI [of _ ?A]) simp
  next
    assume "spawned (snd (process_upload env file w)) = spawned w @ ?V # (?A @ ?S)"
    then show ?thesis by (intro exI [of _ "?A @ ?S"]) simp
  qed
qed

lemma process_upload_rejected:
  assumes probe: "ffprobe env (path file) = Inr md" "streams md = Some ss" "ss \<noteq> []"
    and e1: "exec (run env)
               (video_command (path file) (snd (getFilePaths env (filename file))) (videoStream ss)) w = (r1, w1)"
    and e2: "run_all (run env)
               (audio_commands (path file) (snd (getFilePaths env (filename file))) (audioStreams ss)) w1 = (rs2, w2)"
    and e3: "run_all (run env)
               (subtitle_commands (path file) (snd (getFilePaths env (filename file))) (subtitleStreams ss)) w2 = (rs3, w3)"
    and fails: "r1 \<noteq> None \<or> (\<exists>r \<in> set rs2. r \<noteq> None) \<or> (\<exists>r \<in> set rs3. r \<noteq> None)"
  shows "\<exists>err. fst (process_upload env file w) = Inl err"
proof -
  let ?AT = "audio_track_list (fst (getFilePaths env (filename file))) (audioStreams ss)"
  let ?ST = "subtitle_track_list (fst (getFilePaths env (filename file))) (subtitleStreams ss)"
  note u = process_upload_unfold [OF probe, of w]
  show ?thesis
  proof (cases r1)
    case (Some err)
    with u e1 show ?thesis by simp
  next
    case None
    show ?thesis
    proof (cases "\<exists>r \<in> set rs2. r \<noteq> None")
      case True
      with e2 obtain err where "promise_all (run env)
          (audio_commands (path file) (snd (getFilePaths env (filename file))) (audioStreams ss)) ?AT w1 = (Inl err, w2)"
        using promise_all_rejected by blast
      with u e1 None show ?thesis by simp
    next
      case False
      then have "\<forall>r \<in> set rs2. r = None"
        by simp
      with e2 have a: "promise_all (run env)
          (audio_commands (path file) (snd (getFilePaths env (filename file))) (audioStreams ss)) ?AT w1 = (Inr ?AT, w2)"
        by (rule promise_all_fulfilled)
      from fails None False have "\<exists>r \<in> set rs3. r \<noteq> None"
        by blast
      with e3 obtain err where "promise_all (run env)
          (subtitle_commands (path file) (snd (getFilePaths env (filename file))) (subtitleStreams ss)) ?ST w2 = (Inl err, w3)"
        using promise_all_rejected by blast
      with u e1 None a show ?thesis by simp
    qed
  qed
qed

subsection \<open>The response of the batch handler\<close>

lemma upload_spawned: "spawned (snd (upload env (Some file) w)) = spawned (snd (process_upload env file w))"
  by (simp add: upload_def split: prod.splits sum.splits)

lemma upload_Status200:
  assumes "upload env (Some file) w = (Status200 m, w')"
  shows "process_upload env file w = (Inr m, w')"
  using assms by (auto simp: upload_def split: prod.splits sum.splits)

lemma upload_Status500:
  assumes "fst (process_upload env file w) = Inl err"
  shows "\<exists>w'. upload env (Some file) w = (Status500 ''Video processing failed'' err, w')"
  using assms by (auto simp: upload_def split: prod.splits sum.splits)

lemma process_upload_Inr_nonempty:
  assumes "process_upload env file w = (Inr m, w')"
    and "ffprobe env (path file) = Inr md" and "streams md = Some ss"
  shows "ss \<noteq> []"
proof
  assume "ss = []"
  with assms show False
    by (simp add: process_upload_def Let_def split_beta)
qed

lemma manifest_tracks:
  assumes "upload env (Some file) w = (Status200 m, w')"
    and "ffprobe env (path file) = Inr md" and "streams md = Some ss"
  shows "audioTracks m = audio_track_list (fst (getFilePaths env (filename file))) (audioStreams ss)"
    and "subtitleTracks m = subtitle_track_list (fst (getFilePaths env (filename file))) (subtitleStreams ss)"
proof -
  have p: "process_upload env file w = (Inr m, w')"
    using assms(1) by (rule upload_Status200)
  have ne: "ss \<noteq> []"
    using p assms(2,3) by (rule process_upload_Inr_nonempty)
  note s = process_upload_success [OF assms(2,3) ne p]
  show "audioTracks m = audio_track_list (fst (getFilePaths env (filename file))) (audioStreams ss)"
    using s by simp
  show "subtitleTracks m = subtitle_track_list (fst (getFilePaths env (filename file))) (subtitleStreams ss)"
    using s by simp
qed

lemma audio_track_list_nth:
  "i < length xs \<Longrightarrow> audio_track_list b xs ! i = audio_track b i (xs ! i)"
  by (simp add: audio_track_list_def nth_enumerate_eq)

lemma subtitle_track_list_nth:
  "i < length xs \<Longrightarrow> subtitle_track_list b xs ! i = subtitle_track b i (xs ! i)"
  by (simp add: subtitle_track_list_def nth_enumerate_eq)

lemma track_list_length:
  "length (audio_track_list b xs) = length xs" "length (subtitle_track_list b xs) = length xs"
  by (simp_all add: audio_track_list_def subtitle_track_list_def)

section \<open>The claims about the two handlers\<close>

subsection \<open>Facts used to evaluate the examples\<close>

lemmas fixture_defs =
  example_server_def example_file_def example_streams_def empty_world_def writes_quoted_def
  video_h264_def audio_commentary_def subtitle_srt_def audio_mp3_def audio_empty_title_def audio_empty_tags_def

lemmas batch_defs =
  upload_def process_upload_def promise_all_def exec_def getFilePaths_def
  videoStream_def audioStreams_def subtitleStreams_def
  audio_commands_def subtitle_commands_def audio_track_list_def subtitle_track_list_def
  video_command_def audio_command_def subtitle_command_def audio_track_def subtitle_track_def
  js_or_def tags_title_def tags_language_def path_join_def cleanupFiles_def
  ffmpeg_def ff_output_def noAudio_def noVideo_def videoCodec_def audioCodec_def addOutputOption_def
  show_nat.simps digit_char_def Let_def

lemmas clean_defs =
  cleanedContent_def cleanLine_def trim_def is_space_def all_digits_def is_digit_def remove_quotes_def
  ascii_def utf8_encode_def utf8_encode_cp_def scalar_value_def continuation_def Let_def char_of_eq_iff

lemma example_audioStreams: "audioStreams example_streams = [audio_commentary, audio_mp3]"
  by (simp add: audioStreams_def example_streams_def video_h264_def audio_commentary_def subtitle_srt_def audio_mp3_def)

lemma example_subtitleStreams: "subtitleStreams example_streams = [subtitle_srt]"
  by (simp add: subtitleStreams_def example_streams_def video_h264_def audio_commentary_def subtitle_srt_def audio_mp3_def)

lemma example_probe:
  "ffprobe example_server (path example_file) = Inr \<lparr>streams = Some example_streams\<rparr>"
  "streams \<lparr>streams = Some example_streams\<rparr> = Some example_streams"
  by (simp_all add: example_server_def)

lemma example_upload_response:
  "fst (upload example_server (Some example_file) empty_world) =
     Status200
       \<lparr>videoUrl = ''/processed/1-clip/video.mp4'',
        audioTracks = [\<lparr>url = ''/processed/1-clip/audio_0.aac'', label = ''Commentary''\<rparr>,
                       \<lparr>url = ''/processed/1-clip/audio_1.aac'', label = ''Audio 2''\<rparr>],
        subtitleTracks = [\<lparr>url = ''/processed/1-clip/sub_0.vtt'', label = ''Subtitle 1''\<rparr>],
        manifest_filename = ''clip.mkv''\<rparr>"
  by (simp add: fixture_defs batch_defs)

subsection \<open>Commands, files and entries of a successful call\<close>


lemma upload_files:
  assumes "upload env (Some file) w = (Status200 m, w')"
    and "ffprobe env (path file) = Inr md" and "streams md = Some ss"
  shows "files w' = cleanupFiles (path file)
           (foldl (\<lambda>fs c. snd (run env c fs)) (files w)
             (video_command (path file) (snd (getFilePaths env (filename file))) (videoStream ss) #
              audio_commands (path file) (snd (getFilePaths env (filename file))) (audioStreams ss) @
              subtitle_commands (path file) (snd (getFilePaths env (filename file))) (subtitleStreams ss)))"
proof -
  have p: "process_upload env file w = (Inr m, w')"
    using assms(1) by (rule upload_Status200)
  have ne: "ss \<noteq> []"
    using p assms(2,3) by (rule process_upload_Inr_nonempty)
  from process_upload_success [OF assms(2,3) ne p] show ?thesis
    by simp
qed

lemma audio_label:
  assumes "upload env (Some file) w = (Status200 m, w')"
    and "ffprobe env (path file) = Inr md" and "streams md = Some ss"
    and "i < length (audioStreams ss)"
  shows "label (audioTracks m ! i) =
           js_or (tags_title (audioStreams ss ! i))
             (js_or (tags_language (audioStreams ss ! i)) (''Audio '' @ show_nat (i + 1)))"
  using assms(4) by (simp add: manifest_tracks(1) [OF assms(1,2,3)] audio_track_list_nth audio_track_def)

lemma subtitle_label:
  assumes "upload env (Some file) w = (Status200 m, w')"
    and "ffprobe env (path file) = Inr md" and "streams md = Some ss"
    and "i < length (subtitleStreams ss)"
  shows "label (subtitleTracks m ! i) =
           js_or (tags_title (subtitleStreams ss ! i))
             (js_or (tags_language (subtitleStreams ss ! i)) (''Subtitle '' @ show_nat (i + 1)))"
  using assms(4) by (simp add: manifest_tracks(2) [OF assms(1,2,3)] subtitle_track_list_nth subtitle_track_def)

subsection \<open>Copy or transcode of an audio stream\<close>




subsection \<open>A failed extraction in the batch mode\<close>

text \<open>
  Claim C2. Take a call on a file that could be probed, and the outcomes of its commands in
  the state of the call: of the command for the video, run in the state the call starts
  in; of the commands for the audio streams, run in the state the video command left; and
  of the commands for the subtitle streams, run in the state the audio commands left. When
  one of these outcomes is a failure, the call answers with status 500 and an error: no
  manifest is returned, whatever the other commands did.
\<close>

theorem batch_failure_fails_call:
  assumes "ffprobe env (path file) = Inr md" and "streams md = Some ss"
    and "exec (run env)
           (video_command (path file) (snd (getFilePaths env (filename file))) (videoStream ss)) w = (r1, w1)"
    and "run_all (run env)
           (audio_commands (path file) (snd (getFilePaths env (filename file))) (audioStreams ss)) w1 = (rs2, w2)"
    and "run_all (run env)
           (subtitle_commands (path file) (snd (getFilePaths env (filename file))) (subtitleStreams ss)) w2 = (rs3, w3)"
    and "r1 \<noteq> None \<or> (\<exists>r \<in> set rs2. r \<noteq> None) \<or> (\<exists>r \<in> set rs3. r \<noteq> None)"
  shows "\<exists>details w'. upload env (Some file) w = (Status500 ''Video processing failed'' details, w')"
proof -
  have "\<exists>err. fst (process_upload env file w) = Inl err"
  proof (cases "ss = []")
    case True
    with assms(1,2) show ?thesis
      by (simp add: process_upload_def Let_def split_beta)
  next
    case False
    show ?thesis
      by (rule process_upload_rejected [OF assms(1,2) False assms(3-6)])
  qed
  then show ?thesis
    using upload_Status500 by blast
qed

theorem batch_failure_fails_call_witness:
  "fst (run guarded_server (audio_command ''/srv/uploads/1-clip.mkv'' ''/srv/processed/1-clip'' 1 audio_mp3) Map.empty)
     = None \<and>
   fst (run guarded_server (audio_command ''/srv/uploads/1-clip.mkv'' ''/srv/processed/1-clip'' 1 audio_mp3)
          (files leftover_world))
     = Some ''ffmpeg exited with code 1'' \<and>
   (\<exists>details w'.
      upload guarded_server (Some example_file) leftover_world
        = (Status500 ''Video processing failed'' details, w'))"
proof -
  let ?V = "video_command (path example_file) (snd (getFilePaths guarded_server (filename example_file)))
              (videoStream example_streams)"
  let ?A = "audio_commands (path example_file) (snd (getFilePaths guarded_server (filename example_file)))
              (audioStreams example_streams)"
  let ?S = "subtitle_commands (path example_file) (snd (getFilePaths guarded_server (filename example_file)))
              (subtitleStreams example_streams)"
  let ?e1 = "exec (run guarded_server) ?V leftover_world"
  let ?e2 = "run_all (run guarded_server) ?A (snd ?e1)"
  let ?e3 = "run_all (run guarded_server) ?S (snd ?e2)"
  have p: "ffprobe guarded_server (path example_file) = Inr \<lparr>streams = Some example_streams\<rparr>"
    by (simp add: guarded_server_def example_server_def)
  have s: "streams \<lparr>streams = Some example_streams\<rparr> = Some example_streams"
    by simp
  have e1: "?e1 = (fst ?e1, snd ?e1)" and e2: "?e2 = (fst ?e2, snd ?e2)" and e3: "?e3 = (fst ?e3, snd ?e3)"
    by simp_all
  have "fst ?e2 = [None, Some ''ffmpeg exited with code 1'']"
    by (simp add: guarded_server_def refuses_overwrite_def leftover_world_def fixture_defs batch_defs)
  then have f: "fst ?e1 \<noteq> None \<or> (\<exists>r \<in> set (fst ?e2). r \<noteq> None) \<or> (\<exists>r \<in> set (fst ?e3). r \<noteq> None)"
    by simp
  have "\<exists>details w'.
      upload guarded_server (Some example_file) leftover_world
        = (Status500 ''Video processing failed'' details, w')"
    by (rule batch_failure_fails_call [OF p s e1 e2 e3 f])
  moreover have "fst (run guarded_server (audio_command ''/srv/uploads/1-clip.mkv'' ''/srv/processed/1-clip'' 1 audio_mp3) Map.empty)
     = None"
    by (simp add: guarded_server_def refuses_overwrite_def)
  moreover have "fst (run guarded_server (audio_command ''/srv/uploads/1-clip.mkv'' ''/srv/processed/1-clip'' 1 audio_mp3)
          (files leftover_world))
     = Some ''ffmpeg exited with code 1''"
    by (simp add: guarded_server_def refuses_overwrite_def leftover_world_def audio_command_def addOutputOption_def
        audioCodec_def noVideo_def ff_output_def ffmpeg_def path_join_def show_nat.simps digit_char_def)
  ultimately show ?thesis
    by blast
qed

subsection \<open>Output paths\<close>

lemma output_path_of_success:
  assumes "fst (extract_stream tempDir now proc filePath stream w) = Inr p"
  shows "p = path_join tempDir
               (''mx-player-'' @ show_nat now
                  @ (if codec_type stream = ''audio'' then ''_audio_'' else ''_sub_'')
                  @ show_nat (index stream)
                  @ (if codec_type stream = ''audio'' then ''.aac'' else ''.vtt''))"
  using assms
  by (auto simp: extract_stream_def Let_def run_command_def exec_def
      split: if_splits prod.splits option.splits)

text \<open>
  Printing in decimal is injective, so requests whose clock readings differ are given
  different output paths; a request's path depends on nothing else that varies between two
  requests for streams of the same type and index.
\<close>

lemma digit_char_code:
  assumes "a < 10"
  shows "(of_char (digit_char a) :: nat) = 48 + a"
proof -
  from assms have "a = 0 \<or> a = 1 \<or> a = 2 \<or> a = 3 \<or> a = 4 \<or> a = 5 \<or> a = 6 \<or> a = 7 \<or> a = 8 \<or> a = 9"
    by arith
  then show ?thesis
    by (elim disjE) (simp_all add: digit_char_def)
qed

lemma digit_char_inject:
  assumes "a < 10" and "b < 10" and "digit_char a = digit_char b"
  shows "a = b"
proof -
  have "(of_char (digit_char a) :: nat) = of_char (digit_char b)"
    using assms(3) by simp
  then show ?thesis
    by (simp add: digit_char_code assms(1,2))
qed

lemma show_nat_not_Nil: "show_nat n \<noteq> []"
  by (subst show_nat.simps) simp

lemma show_nat_inject: "show_nat a = show_nat b \<Longrightarrow> a = b"
proof (induction a arbitrary: b rule: less_induct)
  case (less a)
  show ?case
  proof (cases "a < 10")
    case True
    then have la: "show_nat a = [digit_char a]"
      by (subst show_nat.simps) simp
    show ?thesis
    proof (cases "b < 10")
      case b: True
      then have "show_nat b = [digit_char b]"
        by (subst show_nat.simps) simp
      with la less.prems have "digit_char a = digit_char b" by simp
      with True b show ?thesis by (rule digit_char_inject)
    next
      case b: False
      then have "show_nat b = show_nat (b div 10) @ [digit_char (b mod 10)]"
        by (subst show_nat.simps) simp
      with la less.prems have "show_nat (b div 10) = []" by simp
      then show ?thesis by (simp add: show_nat_not_Nil)
    qed
  next
    case False
    then have la: "show_nat a = show_nat (a div 10) @ [digit_char (a mod 10)]"
      by (subst show_nat.simps) simp
    show ?thesis
    proof (cases "b < 10")
      case b: True
      then have "show_nat b = [digit_char b]"
        by (subst show_nat.simps) simp
      with la less.prems have "show_nat (a div 10) = []" by simp
      then show ?thesis by (simp add: show_nat_not_Nil)
    next
      case b: False
      then have "show_nat b = show_nat (b div 10) @ [digit_char (b mod 10)]"
        by (subst show_nat.simps) simp
      with la less.prems have e: "show_nat (a div 10) = show_nat (b div 10)"
        and d: "digit_char (a mod 10) = digit_char (b mod 10)"
        by simp_all
      from False have "a div 10 < a" by simp
      from less.IH [OF this e] have "a div 10 = b div 10" .
      moreover from d have "a mod 10 = b mod 10"
        by (intro digit_char_inject) simp_all
      ultimately show ?thesis
        by (metis div_mult_mod_eq)
    qed
  qed
qed

lemma distinct_readings_distinct_paths:
  assumes "fst (extract_stream tempDir now proc filePath stream w) = Inr p"
    and "fst (extract_stream tempDir now' proc' filePath' stream w') = Inr p'"
    and "now \<noteq> now'"
  shows "p \<noteq> p'"
proof
  assume "p = p'"
  with output_path_of_success [OF assms(1)] output_path_of_success [OF assms(2)]
  have "show_nat now = show_nat now'"
    by (simp add: path_join_def)
  then have "now = now'" by (rule show_nat_inject)
  with assms(3) show False by simp
qed

text \<open>
  Claim C4 does not hold of the code. The identifier of an output path is the reading of
  \<^verbatim>\<open>Date.now()\<close>, in milliseconds: two requests handled in the same millisecond for
  streams with the same type and index, here of two different source files, are given the
  same output path.
\<close>

theorem same_millisecond_same_path:
  "fst (extract_stream ''/tmp'' 1700000000000 (\<lambda>c fs. (None, fs)) ''a.mkv''
          \<lparr>index = 1, codec_type = ''audio'', codec_name = ''aac'', tags = None\<rparr> empty_world)
     = Inr ''/tmp/mx-player-1700000000000_audio_1.aac'' \<and>
   fst (extract_stream ''/tmp'' 1700000000000 (\<lambda>c fs. (None, fs)) ''b.mkv''
          \<lparr>index = 1, codec_type = ''audio'', codec_name = ''mp3'', tags = None\<rparr> empty_world)
     = Inr ''/tmp/mx-player-1700000000000_audio_1.aac''"
  by (simp add: extract_stream_def run_command_def exec_def path_join_def show_nat.simps digit_char_def empty_world_def)

subsection \<open>Clean-up of extracted subtitles\<close>

text \<open>
  Claim C5, amended. In the interactive mode, when the extraction of a subtitle stream
  succeeds and the output file can be read and written, the handler resolves with the
  output path after the file has been rewritten with its cleaned content; when the file is
  missing or cannot be read or written, it resolves with the path all the same and the files
  stay as the subprocess left them. In the batch mode no clean-up runs: after a successful
  call the files are what the subprocesses left, in the order they were spawned, less the
  uploaded file.
\<close>

theorem subtitle_normalized_interactive_only:
  "(let outputPath = path_join tempDir (''mx-player-'' @ show_nat now @ ''_sub_'' @ show_nat (index stream) @ ''.vtt'');
        command = ''ffmpeg -y -i \"'' @ filePath @ ''\" -map 0:'' @ show_nat (index stream)
                    @ '' -c:s webvtt \"'' @ outputPath @ ''\"''
    in (codec_type stream = ''subtitle'' \<and> proc command (files w) = (None, fs') \<and>
        fs' outputPath = Some f \<and> readable f \<and> writable f \<longrightarrow>
        extract_stream tempDir now proc filePath stream w =
          (Inr outputPath,
           \<lparr>files = fs'(outputPath \<mapsto> f\<lparr>content := utf8_encode (cleanedContent (utf8_decode (content f)))\<rparr>),
            spawned = spawned w @ [command]\<rparr>)) \<and>
       (codec_type stream = ''subtitle'' \<and> proc command (files w) = (None, fs') \<and>
        (\<forall>g. fs' outputPath = Some g \<longrightarrow> \<not> readable g \<or> \<not> writable g) \<longrightarrow>
        extract_stream tempDir now proc filePath stream w =
          (Inr outputPath, \<lparr>files = fs', spawned = spawned w @ [command]\<rparr>))) \<and>
   (upload env (Some file) v = (Status200 m, v') \<and> ffprobe env (path file) = Inr md \<and> streams md = Some ss \<longrightarrow>
      files v' = cleanupFiles (path file)
        (foldl (\<lambda>fs c. snd (run env c fs)) (files v)
          (video_command (path file) (snd (getFilePaths env (filename file))) (videoStream ss) #
           audio_commands (path file) (snd (getFilePaths env (filename file))) (audioStreams ss) @
           subtitle_commands (path file) (snd (getFilePaths env (filename file))) (subtitleStreams ss))))"
  using interactive_subtitle [of stream _ tempDir now _ filePath proc w fs' f]
    interactive_subtitle_not_cleaned [of stream _ tempDir now _ filePath proc w fs']
    upload_files [of env "file" v m v' md ss]
  by (simp add: Let_def)

theorem subtitle_normalized_interactive_only_witness:
  "fst (extract_stream ''/tmp'' 5 (\<lambda>c fs. (None, writes_quoted (Some ''/tmp/mx-player-5_sub_2.vtt'') fs))
          ''a.mkv'' subtitle_srt empty_world) = Inr ''/tmp/mx-player-5_sub_2.vtt'' \<and>
   map_option content
     (files (snd (extract_stream ''/tmp'' 5 (\<lambda>c fs. (None, writes_quoted (Some ''/tmp/mx-player-5_sub_2.vtt'') fs))
                    ''a.mkv'' subtitle_srt empty_world)) ''/tmp/mx-player-5_sub_2.vtt'')
     = Some ''He said hello'' \<and>
   extract_stream ''/tmp'' 5 (\<lambda>c fs. (None, fs)) ''a.mkv'' subtitle_srt empty_world =
     (Inr ''/tmp/mx-player-5_sub_2.vtt'',
      \<lparr>files = Map.empty,
       spawned = [''ffmpeg -y -i \"a.mkv\" -map 0:2 -c:s webvtt \"/tmp/mx-player-5_sub_2.vtt\"'']\<rparr>) \<and>
   map_option content
     (files (snd (upload example_server (Some example_file) empty_world)) ''/srv/processed/1-clip/sub_0.vtt'')
     = Some ''He said \"hello\"''"
proof -
  let ?proc = "\<lambda>(c::string) fs. (None :: string option, writes_quoted (Some ''/tmp/mx-player-5_sub_2.vtt'') fs)"
  let ?idle = "\<lambda>(c::string) (fs::fs). (None :: string option, fs)"
  let ?f = "\<lparr>content = ''He said \"hello\"'', readable = True, writable = True\<rparr>"
  let ?fs' = "writes_quoted (Some ''/tmp/mx-player-5_sub_2.vtt'') (files (empty_world :: string world))"
  let ?m = "\<lparr>videoUrl = ''/processed/1-clip/video.mp4'',
        audioTracks = [\<lparr>url = ''/processed/1-clip/audio_0.aac'', label = ''Commentary''\<rparr>,
                       \<lparr>url = ''/processed/1-clip/audio_1.aac'', label = ''Audio 2''\<rparr>],
        subtitleTracks = [\<lparr>url = ''/processed/1-clip/sub_0.vtt'', label = ''Subtitle 1''\<rparr>],
        manifest_filename = ''clip.mkv''\<rparr>"
  note t = subtitle_normalized_interactive_only [of "''/tmp''" 5 subtitle_srt "''a.mkv''" ?proc empty_world ?fs' ?f
      example_server example_file empty_world ?m "snd (upload example_server (Some example_file) empty_world)"
      "\<lparr>streams = Some example_streams\<rparr>" example_streams]
  note t' = subtitle_normalized_interactive_only [of "''/tmp''" 5 subtitle_srt "''a.mkv''" ?idle empty_world
      "files (empty_world :: string world)" ?f
      example_server example_file empty_world ?m "snd (upload example_server (Some example_file) empty_world)"
      "\<lparr>streams = Some example_streams\<rparr>" example_streams]
  have c: "utf8_encode (cleanedContent (utf8_decode ''He said \"hello\"'')) = ''He said hello''"
    by (simp add: clean_defs)
  have i: "extract_stream ''/tmp'' 5 ?proc ''a.mkv'' subtitle_srt empty_world =
      (Inr ''/tmp/mx-player-5_sub_2.vtt'',
       \<lparr>files = ?fs'(''/tmp/mx-player-5_sub_2.vtt'' \<mapsto> ?f\<lparr>content := utf8_encode (cleanedContent (utf8_decode (content ?f)))\<rparr>),
        spawned = spawned (empty_world :: string world) @
          [''ffmpeg -y -i \"a.mkv\" -map 0:2 -c:s webvtt \"/tmp/mx-player-5_sub_2.vtt\"'']\<rparr>)"
    using t [THEN conjunct1]
    by (simp add: Let_def subtitle_srt_def path_join_def show_nat.simps digit_char_def writes_quoted_def)
  have j: "extract_stream ''/tmp'' 5 ?idle ''a.mkv'' subtitle_srt empty_world =
      (Inr ''/tmp/mx-player-5_sub_2.vtt'',
       \<lparr>files = Map.empty,
        spawned = [''ffmpeg -y -i \"a.mkv\" -map 0:2 -c:s webvtt \"/tmp/mx-player-5_sub_2.vtt\"'']\<rparr>)"
    using t' [THEN conjunct1]
    by (simp add: Let_def subtitle_srt_def path_join_def show_nat.simps digit_char_def empty_world_def)
  have u: "upload example_server (Some example_file) empty_world =
      (Status200 ?m, snd (upload example_server (Some example_file) empty_world))"
    using example_upload_response by (simp add: prod_eq_iff)
  have b: "files (snd (upload example_server (Some example_file) empty_world)) =
      cleanupFiles (path example_file)
        (foldl (\<lambda>fs c. snd (run example_server c fs)) (files (empty_world :: ffcommand world))
          (video_command (path example_file) (snd (getFilePaths example_server (filename example_file))) (videoStream example_streams) #
           audio_commands (path example_file) (snd (getFilePaths example_server (filename example_file))) (audioStreams example_streams) @
           subtitle_commands (path example_file) (snd (getFilePaths example_server (filename example_file))) (subtitleStreams example_streams)))"
    using t [THEN conjunct2] u example_probe by blast
  have "fst (extract_stream ''/tmp'' 5 ?proc ''a.mkv'' subtitle_srt empty_world) = Inr ''/tmp/mx-player-5_sub_2.vtt''"
    by (simp add: i)
  moreover have "map_option content
     (files (snd (extract_stream ''/tmp'' 5 ?proc ''a.mkv'' subtitle_srt empty_world)) ''/tmp/mx-player-5_sub_2.vtt'')
     = Some ''He said hello''"
    by (simp add: i c del: utf8_decode.simps)
  moreover have "map_option content
     (files (snd (upload example_server (Some example_file) empty_world)) ''/srv/processed/1-clip/sub_0.vtt'')
     = Some ''He said \"hello\"''"
    unfolding b by (simp add: fixture_defs batch_defs)
  ultimately show ?thesis
    using j by blast
qed

text \<open>
  The claim as stated fails in the batch mode: the call succeeds, and the subtitle file it
  returns in the manifest still holds the double quotes that the clean-up would remove.
\<close>

theorem batch_subtitle_not_normalized_counterexample:
  "fst (upload example_server (Some example_file) empty_world) =
     Status200
       \<lparr>videoUrl = ''/processed/1-clip/video.mp4'',
        audioTracks = [\<lparr>url = ''/processed/1-clip/audio_0.aac'', label = ''Commentary''\<rparr>,
                       \<lparr>url = ''/processed/1-clip/audio_1.aac'', label = ''Audio 2''\<rparr>],
        subtitleTracks = [\<lparr>url = ''/processed/1-clip/sub_0.vtt'', label = ''Subtitle 1''\<rparr>],
        manifest_filename = ''clip.mkv''\<rparr> \<and>
   map_option content
     (files (snd (upload example_server (Some example_file) empty_world)) ''/srv/processed/1-clip/sub_0.vtt'')
     = Some ''He said \"hello\"'' \<and>
   utf8_encode (cleanedContent (utf8_decode ''He said \"hello\"'')) = ''He said hello''"
proof -
  have "map_option content
     (files (snd (upload example_server (Some example_file) empty_world)) ''/srv/processed/1-clip/sub_0.vtt'')
     = Some ''He said \"hello\"''"
    by (simp add: fixture_defs batch_defs)
  moreover have "utf8_encode (cleanedContent (utf8_decode ''He said \"hello\"'')) = ''He said hello''"
    by (simp add: clean_defs)
  ultimately show ?thesis
    using example_upload_response by simp
qed

subsection \<open>The video command of the batch mode\<close>

text \<open>
  Claim C6, amended. In the batch mode, the command for the video always sets the video
  codec \<^verbatim>\<open>copy\<close>; the output option \<^verbatim>\<open>-c:v libx264\<close> is added by the handler itself,
  exactly when the probe found a video stream and the codec name of the first one is
  \<^verbatim>\<open>h264\<close>. That command is the first one the handler spawns, for every upload whose
  probe gives at least one stream. The request has no flag for it.
\<close>

theorem video_command_options:
  "video_codec (video_command inputFile processedDir v) = Some ''copy'' \<and>
   output_options (video_command inputFile processedDir v) =
     (if (case v of None \<Rightarrow> False | Some s \<Rightarrow> codec_name s = ''h264'') then [''-c:v libx264''] else []) \<and>
   (ffprobe env (path file) = Inr md \<and> streams md = Some ss \<and> ss \<noteq> [] \<longrightarrow>
      (\<exists>cs. spawned (snd (upload env (Some file) w)) =
              spawned w @
                video_command (path file) (snd (getFilePaths env (filename file))) (videoStream ss) # cs))"
proof -
  have "video_codec (video_command inputFile processedDir v) = Some ''copy''"
    by (simp add: video_command_def Let_def videoCodec_def addOutputOption_def)
  moreover have "output_options (video_command inputFile processedDir v) =
     (if (case v of None \<Rightarrow> False | Some s \<Rightarrow> codec_name s = ''h264'') then [''-c:v libx264''] else [])"
    by (simp add: video_command_def Let_def videoCodec_def noAudio_def ff_output_def ffmpeg_def addOutputOption_def)
  moreover have "\<exists>cs. spawned (snd (upload env (Some file) w)) =
              spawned w @
                video_command (path file) (snd (getFilePaths env (filename file))) (videoStream ss) # cs"
    if "ffprobe env (path file) = Inr md" "streams md = Some ss" "ss \<noteq> []"
    using process_upload_spawned [OF that, of w] by (auto simp: upload_spawned)
  ultimately show ?thesis by blast
qed

theorem video_command_options_witness:
  "output_options (video_command ''/srv/uploads/1-clip.mkv'' ''/srv/processed/1-clip'' (Some video_h264))
     = [''-c:v libx264''] \<and>
   video_codec (video_command ''/srv/uploads/1-clip.mkv'' ''/srv/processed/1-clip'' (Some video_h264))
     = Some ''copy'' \<and>
   output_options (video_command ''/srv/uploads/1-clip.mkv'' ''/srv/processed/1-clip'' None) = [] \<and>
   (\<exists>cs. spawned (snd (upload example_server (Some example_file) empty_world)) =
      video_command ''/srv/uploads/1-clip.mkv'' ''/srv/processed/1-clip'' (Some video_h264) # cs)"
proof -
  note t = video_command_options [of "''/srv/uploads/1-clip.mkv''" "''/srv/processed/1-clip''" _
      example_server example_file "\<lparr>streams = Some example_streams\<rparr>" example_streams empty_world]
  have h: "codec_name video_h264 = ''h264''"
    by (simp add: video_h264_def)
  have p: "ffprobe example_server (path example_file) = Inr \<lparr>streams = Some example_streams\<rparr> \<and>
           streams \<lparr>streams = Some example_streams\<rparr> = Some example_streams \<and> example_streams \<noteq> []"
    by (simp add: example_server_def example_streams_def)
  have v: "videoStream example_streams = Some video_h264"
    by (simp add: videoStream_def example_streams_def video_h264_def)
  have g: "snd (getFilePaths example_server (filename example_file)) = ''/srv/processed/1-clip''"
    by (simp add: getFilePaths_def Let_def path_join_def example_server_def)
  have e: "path example_file = ''/srv/uploads/1-clip.mkv''" "spawned (empty_world :: ffcommand world) = []"
    by (simp_all add: example_file_def empty_world_def)
  from t [of "Some video_h264"] h
  have "output_options (video_command ''/srv/uploads/1-clip.mkv'' ''/srv/processed/1-clip'' (Some video_h264))
     = [''-c:v libx264'']" and "video_codec (video_command ''/srv/uploads/1-clip.mkv'' ''/srv/processed/1-clip'' (Some video_h264))
     = Some ''copy''"
    by simp_all
  moreover from t [of None]
  have "output_options (video_command ''/srv/uploads/1-clip.mkv'' ''/srv/processed/1-clip'' None) = []"
    by simp
  moreover from t [of None, THEN conjunct2, THEN conjunct2, THEN mp, OF p]
  have "\<exists>cs. spawned (snd (upload example_server (Some example_file) empty_world)) =
      video_command ''/srv/uploads/1-clip.mkv'' ''/srv/processed/1-clip'' (Some video_h264) # cs"
    by (simp only: v g e append_Nil)
  ultimately show ?thesis by blast
qed

text \<open>
  The claim as stated fails: for a file whose video stream is H.264 the handler adds the
  re-encoding option on its own; the uploaded file is all the caller supplies.
\<close>

theorem video_reencode_counterexample:
  "videoStream example_streams = Some video_h264 \<and>
   output_options (video_command ''/srv/uploads/1-clip.mkv'' ''/srv/processed/1-clip'' (videoStream example_streams))
     = [''-c:v libx264''] \<and>
   map output_options (take 1 (spawned (snd (upload example_server (Some example_file) empty_world))))
     = [[''-c:v libx264'']]"
  by (simp add: fixture_defs batch_defs)

subsection \<open>Unsupported stream types\<close>

text \<open>
  Claim C8. A request for a stream whose type is neither \<^verbatim>\<open>audio\<close> nor \<^verbatim>\<open>subtitle\<close> is
  rejected with ``Unsupported stream type for extraction.'', and the state is the one the
  handler started from: no command was spawned and no file was touched.
\<close>

theorem unsupported_stream_rejected:
  assumes "codec_type stream \<noteq> ''audio''" and "codec_type stream \<noteq> ''subtitle''"
  shows "extract_stream tempDir now proc filePath stream w =
           (Inl (Rejected_String ''Unsupported stream type for extraction.''), w)"
  using assms by (simp add: extract_stream_def)

theorem unsupported_stream_rejected_witness:
  "extract_stream ''/tmp'' 5 (\<lambda>c fs. (None, fs)) ''a.mkv'' video_h264 empty_world =
     (Inl (Rejected_String ''Unsupported stream type for extraction.''), empty_world) \<and>
   spawned (empty_world :: string world) = []"
proof -
  have "codec_type video_h264 \<noteq> ''audio''" "codec_type video_h264 \<noteq> ''subtitle''"
    by (simp_all add: video_h264_def)
  then show ?thesis
    using unsupported_stream_rejected [of video_h264 "''/tmp''" 5 "\<lambda>c fs. (None, fs)" "''a.mkv''" empty_world]
    by (simp add: empty_world_def)
qed

subsection \<open>Labels of the manifest\<close>

text \<open>
  Claim C9, amended. In the manifest of a successful call there is one entry for each audio
  stream and one for each subtitle stream, in the order of the probe. The label of the
  entry at position \<open>i\<close> (from 0) of its kind is the title tag of the stream if it is present
  and not empty; else the language tag if it is present and not empty; else \<^verbatim>\<open>Audio n\<close> or
  \<^verbatim>\<open>Subtitle n\<close> with \<open>n = i + 1\<close>, the position of the stream among the streams of its
  kind, not its index in the file.
\<close>

theorem manifest_labels:
  assumes "upload env (Some file) w = (Status200 m, w')"
    and "ffprobe env (path file) = Inr md" and "streams md = Some ss"
  shows "length (audioTracks m) = length (audioStreams ss) \<and>
         length (subtitleTracks m) = length (subtitleStreams ss) \<and>
         (\<forall>i < length (audioStreams ss).
            (\<forall>t. tags_title (audioStreams ss ! i) = Some t \<and> t \<noteq> [] \<longrightarrow> label (audioTracks m ! i) = t) \<and>
            (tags_title (audioStreams ss ! i) = None \<or> tags_title (audioStreams ss ! i) = Some [] \<longrightarrow>
               (\<forall>l. tags_language (audioStreams ss ! i) = Some l \<and> l \<noteq> [] \<longrightarrow> label (audioTracks m ! i) = l) \<and>
               (tags_language (audioStreams ss ! i) = None \<or> tags_language (audioStreams ss ! i) = Some [] \<longrightarrow>
                  label (audioTracks m ! i) = ''Audio '' @ show_nat (i + 1)))) \<and>
         (\<forall>i < length (subtitleStreams ss).
            (\<forall>t. tags_title (subtitleStreams ss ! i) = Some t \<and> t \<noteq> [] \<longrightarrow> label (subtitleTracks m ! i) = t) \<and>
            (tags_title (subtitleStreams ss ! i) = None \<or> tags_title (subtitleStreams ss ! i) = Some [] \<longrightarrow>
               (\<forall>l. tags_language (subtitleStreams ss ! i) = Some l \<and> l \<noteq> [] \<longrightarrow> label (subtitleTracks m ! i) = l) \<and>
               (tags_language (subtitleStreams ss ! i) = None \<or> tags_language (subtitleStreams ss ! i) = Some [] \<longrightarrow>
                  label (subtitleTracks m ! i) = ''Subtitle '' @ show_nat (i + 1))))"
proof (intro conjI allI impI)
  show "length (audioTracks m) = length (audioStreams ss)"
    by (simp add: manifest_tracks(1) [OF assms] track_list_length)
  show "length (subtitleTracks m) = length (subtitleStreams ss)"
    by (simp add: manifest_tracks(2) [OF assms] track_list_length)
next
  fix i assume i: "i < length (audioStreams ss)"
  note l = audio_label [OF assms i]
  { fix t assume "tags_title (audioStreams ss ! i) = Some t \<and> t \<noteq> []"
    then show "label (audioTracks m ! i) = t"
      by (simp add: l js_or_def) }
  { fix t assume "tags_title (audioStreams ss ! i) = None \<or> tags_title (audioStreams ss ! i) = Some []"
       and "tags_language (audioStreams ss ! i) = Some t \<and> t \<noteq> []"
    then show "label (audioTracks m ! i) = t"
      by (auto simp: l js_or_def) }
  { assume "tags_title (audioStreams ss ! i) = None \<or> tags_title (audioStreams ss ! i) = Some []"
       and "tags_language (audioStreams ss ! i) = None \<or> tags_language (audioStreams ss ! i) = Some []"
    then show "label (audioTracks m ! i) = ''Audio '' @ show_nat (i + 1)"
      by (auto simp: l js_or_def) }
next
  fix i assume i: "i < length (subtitleStreams ss)"
  note l = subtitle_label [OF assms i]
  { fix t assume "tags_title (subtitleStreams ss ! i) = Some t \<and> t \<noteq> []"
    then show "label (subtitleTracks m ! i) = t"
      by (simp add: l js_or_def) }
  { fix t assume "tags_title (subtitleStreams ss ! i) = None \<or> tags_title (subtitleStreams ss ! i) = Some []"
       and "tags_language (subtitleStreams ss ! i) = Some t \<and> t \<noteq> []"
    then show "label (subtitleTracks m ! i) = t"
      by (auto simp: l js_or_def) }
  { assume "tags_title (subtitleStreams ss ! i) = None \<or> tags_title (subtitleStreams ss ! i) = Some []"
       and "tags_language (subtitleStreams ss ! i) = None \<or> tags_language (subtitleStreams ss ! i) = Some []"
    then show "label (subtitleTracks m ! i) = ''Subtitle '' @ show_nat (i + 1)"
      by (auto simp: l js_or_def) }
qed

theorem manifest_labels_witness:
  "\<exists>m w'. upload example_server (Some example_file) empty_world = (Status200 m, w') \<and>
      index (audioStreams example_streams ! 1) = 3 \<and>
      label (audioTracks m ! 0) = ''Commentary'' \<and>
      label (audioTracks m ! 1) = ''Audio 2'' \<and>
      label (subtitleTracks m ! 0) = ''Subtitle 1''"
proof -
  let ?m = "\<lparr>videoUrl = ''/processed/1-clip/video.mp4'',
        audioTracks = [\<lparr>url = ''/processed/1-clip/audio_0.aac'', label = ''Commentary''\<rparr>,
                       \<lparr>url = ''/processed/1-clip/audio_1.aac'', label = ''Audio 2''\<rparr>],
        subtitleTracks = [\<lparr>url = ''/processed/1-clip/sub_0.vtt'', label = ''Subtitle 1''\<rparr>],
        manifest_filename = ''clip.mkv''\<rparr>"
  let ?w' = "snd (upload example_server (Some example_file) empty_world)"
  have u: "upload example_server (Some example_file) empty_world = (Status200 ?m, ?w')"
    using example_upload_response by (simp add: prod_eq_iff)
  note t = manifest_labels [OF u example_probe]
  have l0: "0 < length (audioStreams example_streams)" and l1: "1 < length (audioStreams example_streams)"
    by (simp_all add: example_audioStreams)
  have t0: "tags_title (audioStreams example_streams ! 0) = Some ''Commentary''"
    by (simp add: example_audioStreams tags_title_def audio_commentary_def)
  have n1: "tags_title (audioStreams example_streams ! 1) = None"
    "tags_language (audioStreams example_streams ! 1) = None"
    by (simp_all add: example_audioStreams tags_title_def tags_language_def audio_mp3_def)
  from t l0 have "\<forall>t. tags_title (audioStreams example_streams ! 0) = Some t \<and> t \<noteq> [] \<longrightarrow>
      label (audioTracks ?m ! 0) = t"
    by blast
  with t0 have a0: "label (audioTracks ?m ! 0) = ''Commentary''"
    by simp
  from t l1 n1 have "label (audioTracks ?m ! 1) = ''Audio '' @ show_nat (1 + 1)"
    by blast
  then have a1: "label (audioTracks ?m ! 1) = ''Audio 2''"
    by (simp add: show_nat.simps digit_char_def)
  have s0: "label (subtitleTracks ?m ! 0) = ''Subtitle 1''"
    by simp
  have x: "index (audioStreams example_streams ! 1) = 3"
    by (simp add: example_audioStreams audio_mp3_def)
  from u x a0 a1 s0 show ?thesis
    by blast
qed

text \<open>
  The claim as stated fails for a title tag that is present and empty: the label is then
  the language tag, not the title.
\<close>

theorem empty_title_counterexample:
  "tags_title audio_empty_title = Some [] \<and>
   tags_language audio_empty_title = Some ''eng'' \<and>
   label (audio_track ''1-clip'' 0 audio_empty_title) = ''eng'' \<and>
   label (subtitle_track ''1-clip'' 0 (audio_empty_title\<lparr>codec_type := ''subtitle''\<rparr>)) = ''eng''"
  by (simp add: audio_empty_title_def audio_track_def subtitle_track_def js_or_def tags_title_def tags_language_def)

text \<open>
  Claim C10. In the manifest of a successful call, for a stream whose title tag is present
  and empty the label is the language tag when that is present and not empty, and the
  positional fallback when the language tag is missing; and whenever the title is missing
  or empty and the language tag is present and empty, the label is the positional fallback.
\<close>

theorem empty_tag_falls_through:
  assumes "upload env (Some file) w = (Status200 m, w')"
    and "ffprobe env (path file) = Inr md" and "streams md = Some ss"
  shows "(\<forall>i < length (audioStreams ss).
            (tags_title (audioStreams ss ! i) = Some [] \<longrightarrow>
               (\<forall>l. tags_language (audioStreams ss ! i) = Some l \<and> l \<noteq> [] \<longrightarrow> label (audioTracks m ! i) = l) \<and>
               (tags_language (audioStreams ss ! i) = None \<longrightarrow>
                  label (audioTracks m ! i) = ''Audio '' @ show_nat (i + 1))) \<and>
            (tags_language (audioStreams ss ! i) = Some [] \<and>
               (tags_title (audioStreams ss ! i) = None \<or> tags_title (audioStreams ss ! i) = Some []) \<longrightarrow>
               label (audioTracks m ! i) = ''Audio '' @ show_nat (i + 1))) \<and>
         (\<forall>i < length (subtitleStreams ss).
            (tags_title (subtitleStreams ss ! i) = Some [] \<longrightarrow>
               (\<forall>l. tags_language (subtitleStreams ss ! i) = Some l \<and> l \<noteq> [] \<longrightarrow> label (subtitleTracks m ! i) = l) \<and>
               (tags_language (subtitleStreams ss ! i) = None \<longrightarrow>
                  label (subtitleTracks m ! i) = ''Subtitle '' @ show_nat (i + 1))) \<and>
            (tags_language (subtitleStreams ss ! i) = Some [] \<and>
               (tags_title (subtitleStreams ss ! i) = None \<or> tags_title (subtitleStreams ss ! i) = Some []) \<longrightarrow>
               label (subtitleTracks m ! i) = ''Subtitle '' @ show_nat (i + 1)))"
proof -
  have "(tags_title (audioStreams ss ! i) = Some [] \<longrightarrow>
               (\<forall>l. tags_language (audioStreams ss ! i) = Some l \<and> l \<noteq> [] \<longrightarrow> label (audioTracks m ! i) = l) \<and>
               (tags_language (audioStreams ss ! i) = None \<longrightarrow>
                  label (audioTracks m ! i) = ''Audio '' @ show_nat (i + 1))) \<and>
            (tags_language (audioStreams ss ! i) = Some [] \<and>
               (tags_title (audioStreams ss ! i) = None \<or> tags_title (audioStreams ss ! i) = Some []) \<longrightarrow>
               label (audioTracks m ! i) = ''Audio '' @ show_nat (i + 1))"
    if "i < length (audioStreams ss)" for i
    by (auto simp: audio_label [OF assms that] js_or_def)
  moreover have "(tags_title (subtitleStreams ss ! i) = Some [] \<longrightarrow>
               (\<forall>l. tags_language (subtitleStreams ss ! i) = Some l \<and> l \<noteq> [] \<longrightarrow> label (subtitleTracks m ! i) = l) \<and>
               (tags_language (subtitleStreams ss ! i) = None \<longrightarrow>
                  label (subtitleTracks m ! i) = ''Subtitle '' @ show_nat (i + 1))) \<and>
            (tags_language (subtitleStreams ss ! i) = Some [] \<and>
               (tags_title (subtitleStreams ss ! i) = None \<or> tags_title (subtitleStreams ss ! i) = Some []) \<longrightarrow>
               label (subtitleTracks m ! i) = ''Subtitle '' @ show_nat (i + 1))"
    if "i < length (subtitleStreams ss)" for i
    by (auto simp: subtitle_label [OF assms that] js_or_def)
  ultimately show ?thesis by blast
qed

theorem empty_tag_falls_through_witness:
  "\<exists>m w'. upload (example_server\<lparr>ffprobe := (\<lambda>p. Inr \<lparr>streams = Some [audio_empty_title, audio_empty_tags]\<rparr>)\<rparr>)
             (Some example_file) empty_world = (Status200 m, w') \<and>
      tags_title audio_empty_title = Some [] \<and> tags_language audio_empty_title = Some ''eng'' \<and>
      tags_title audio_empty_tags = Some [] \<and> tags_language audio_empty_tags = Some [] \<and>
      label (audioTracks m ! 0) = ''eng'' \<and>
      label (audioTracks m ! 1) = ''Audio 2''"
proof -
  let ?env = "example_server\<lparr>ffprobe := (\<lambda>p. Inr \<lparr>streams = Some [audio_empty_title, audio_empty_tags]\<rparr>)\<rparr>"
  let ?m = "\<lparr>videoUrl = ''/processed/1-clip/video.mp4'',
        audioTracks = [\<lparr>url = ''/processed/1-clip/audio_0.aac'', label = ''eng''\<rparr>,
                       \<lparr>url = ''/processed/1-clip/audio_1.aac'', label = ''Audio 2''\<rparr>],
        subtitleTracks = [],
        manifest_filename = ''clip.mkv''\<rparr>"
  let ?w' = "snd (upload ?env (Some example_file) empty_world)"
  have "fst (upload ?env (Some example_file) empty_world) = Status200 ?m"
    by (simp add: fixture_defs batch_defs)
  then have u: "upload ?env (Some example_file) empty_world = (Status200 ?m, ?w')"
    by (simp add: prod_eq_iff)
  have p: "ffprobe ?env (path example_file) = Inr \<lparr>streams = Some [audio_empty_title, audio_empty_tags]\<rparr>"
    "streams \<lparr>streams = Some [audio_empty_title, audio_empty_tags]\<rparr> = Some [audio_empty_title, audio_empty_tags]"
    by simp_all
  have a: "audioStreams [audio_empty_title, audio_empty_tags] = [audio_empty_title, audio_empty_tags]"
    by (simp add: audioStreams_def audio_empty_title_def audio_empty_tags_def)
  have g: "tags_title audio_empty_title = Some []" "tags_language audio_empty_title = Some ''eng''"
    "tags_title audio_empty_tags = Some []" "tags_language audio_empty_tags = Some []"
    by (simp_all add: tags_title_def tags_language_def audio_empty_title_def audio_empty_tags_def)
  note t = empty_tag_falls_through [OF u p, THEN conjunct1, unfolded a]
  have l: "0 < length [audio_empty_title, audio_empty_tags]" "1 < length [audio_empty_title, audio_empty_tags]"
    by simp_all
  from t l(1) g(1) have "\<forall>l. tags_language audio_empty_title = Some l \<and> l \<noteq> [] \<longrightarrow>
      label (audioTracks ?m ! 0) = l"
    by fastforce
  with g(2) have a0: "label (audioTracks ?m ! 0) = ''eng''"
    by simp
  from t l(2) g(3,4) have "label (audioTracks ?m ! 1) = ''Audio '' @ show_nat (1 + 1)"
    by fastforce
  then have a1: "label (audioTracks ?m ! 1) = ''Audio 2''"
    by (simp add: show_nat.simps digit_char_def)
  from u g a0 a1 show ?thesis
    by blast
qed

end
